theory Spec2Isabelle
  imports Complex_Main
begin

section \<open>Byte strings and sockets\<close>

text \<open>
  A Python \<^verbatim>\<open>bytes\<close> value is a list of 8-bit characters. A Python \<^verbatim>\<open>str\<close> is represented
  by its UTF-8 encoding, so \<^verbatim>\<open>encode('utf-8')\<close> is the identity and \<^verbatim>\<open>decode('utf-8')\<close>
  succeeds exactly on the well-formed byte sequences.
\<close>

type_synonym bytes = string

text \<open>
  A connected TCP socket, seen from one end. \<open>inbox\<close> holds the bytes still to arrive,
  in the segments in which the network hands them over: one call of \<^verbatim>\<open>recv(n)\<close> returns at
  most \<open>n\<close> bytes and never more than the rest of the first segment, so any sequence of
  partial reads is some segmentation. When no segment is left the peer has closed and
  \<^verbatim>\<open>recv\<close> returns \<^verbatim>\<open>b''\<close>. \<open>outbox\<close> records the argument of every \<^verbatim>\<open>send\<close> call in
  order (a blocking socket takes the whole argument).
\<close>

record tcp_socket =
  inbox :: "bytes list"
  outbox :: "bytes list"
  closed :: bool

fun recv :: "nat \<Rightarrow> bytes list \<Rightarrow> bytes \<times> bytes list" where
  "recv n [] = ([], [])"
| "recv n (seg # segs) =
     (if seg = [] then recv n segs
      else (take n seg, if n < length seg then drop n seg # segs else segs))"

definition send :: "bytes \<Rightarrow> tcp_socket \<Rightarrow> tcp_socket" where
  "send data s = s\<lparr>outbox := outbox s @ [data]\<rparr>"

definition close :: "tcp_socket \<Rightarrow> tcp_socket" where
  "close s = s\<lparr>closed := True\<rparr>"

subsection \<open>Integers on the wire\<close>

text \<open>\<^verbatim>\<open>int.from_bytes(data, byteorder='big')\<close>, for any number of bytes.\<close>

definition int_from_bytes :: "bytes \<Rightarrow> nat" where
  "int_from_bytes data = foldl (\<lambda>acc b. acc * 256 + of_char b) 0 data"

datatype py_error =
    OverflowError | JSONDecodeError | KeyError | TypeError | AttributeError
  | ZeroDivisionError | OSError

text \<open>\<^verbatim>\<open>n.to_bytes(4, byteorder='big')\<close>: OverflowError when \<open>n\<close> does not fit.\<close>

definition length_prefix :: "nat \<Rightarrow> bytes" where
  "length_prefix n =
     [char_of (n div 2 ^ 24), char_of (n div 2 ^ 16), char_of (n div 2 ^ 8), char_of n]"

definition to_bytes4 :: "nat \<Rightarrow> py_error + bytes" where
  "to_bytes4 n = (if n < 2 ^ 32 then Inr (length_prefix n) else Inl OverflowError)"

subsection \<open>UTF-8\<close>

definition cont_byte :: "nat \<Rightarrow> bool" where
  "cont_byte b = (0x80 \<le> b \<and> b \<le> 0xBF)"

text \<open>Well-formed UTF-8 (no overlong forms, no surrogates, nothing above U+10FFFF).\<close>

fun utf8_seq :: "nat list \<Rightarrow> bool" where
  "utf8_seq [] = True"
| "utf8_seq (a # bs) =
     (if a < 0x80 then utf8_seq bs
      else if 0xC2 \<le> a \<and> a \<le> 0xDF then
        (case bs of b # r \<Rightarrow> cont_byte b \<and> utf8_seq r | _ \<Rightarrow> False)
      else if 0xE0 \<le> a \<and> a \<le> 0xEF then
        (case bs of b # c # r \<Rightarrow>
           (if a = 0xE0 then 0xA0 \<le> b \<and> b \<le> 0xBF
            else if a = 0xED then 0x80 \<le> b \<and> b \<le> 0x9F
            else cont_byte b) \<and> cont_byte c \<and> utf8_seq r
         | _ \<Rightarrow> False)
      else if 0xF0 \<le> a \<and> a \<le> 0xF4 then
        (case bs of b # c # d # r \<Rightarrow>
           (if a = 0xF0 then 0x90 \<le> b \<and> b \<le> 0xBF
            else if a = 0xF4 then 0x80 \<le> b \<and> b \<le> 0x8F
            else cont_byte b) \<and> cont_byte c \<and> cont_byte d \<and> utf8_seq r
         | _ \<Rightarrow> False)
      else False)"

definition utf8_valid :: "bytes \<Rightarrow> bool" where
  "utf8_valid data = utf8_seq (map of_char data)"

text \<open>\<^verbatim>\<open>data.decode('utf-8')\<close>: None stands for UnicodeDecodeError.\<close>

definition decode_utf8 :: "bytes \<Rightarrow> string option" where
  "decode_utf8 data = (if utf8_valid data then Some data else None)"

section \<open>The framed channel\<close>

text \<open>
  The read loop shared by \<^verbatim>\<open>receive_message\<close> and the chunk readers of the client:
  \<^verbatim>\<open>
  while len(data) < n:
      chunk = sock.recv(min(n - len(data), buffer_size))
      if not chunk: <give up>
      data += chunk
  \<close>
  The result says whether the loop ran to its end, and carries the bytes collected so
  far and the socket's remaining input.
\<close>

function recv_exact :: "nat \<Rightarrow> nat \<Rightarrow> bytes \<Rightarrow> bytes list \<Rightarrow> bool \<times> bytes \<times> bytes list" where
  "recv_exact buffer_size n data segs =
     (if length data < n then
        (case recv (min (n - length data) buffer_size) segs of
           (chunk, segs') \<Rightarrow>
             if chunk = [] then (False, data, segs')
             else recv_exact buffer_size n (data @ chunk) segs')
      else (True, data, segs))"
  by pat_completeness auto
termination
  by (relation "measure (\<lambda>(buffer_size, n, data, segs). n - length data)")
     (auto simp: neq_Nil_conv)

declare recv_exact.simps [simp del]

text \<open>
  \<^verbatim>\<open>receive_message\<close> is the same code in server.py and client.py. Every failure,
  including the bare \<^verbatim>\<open>except\<close>, ends in \<^verbatim>\<open>return None\<close>.
\<close>

definition receive_message :: "nat \<Rightarrow> tcp_socket \<Rightarrow> string option \<times> tcp_socket" where
  "receive_message buffer_size s =
     (case recv 4 (inbox s) of
        (length_data, segs1) \<Rightarrow>
          if length_data = [] then (None, s\<lparr>inbox := segs1\<rparr>)
          else
            (case recv_exact buffer_size (int_from_bytes length_data) [] segs1 of
               (finished, message_data, segs2) \<Rightarrow>
                 if \<not> finished then (None, s\<lparr>inbox := segs2\<rparr>)
                 else (decode_utf8 message_data, s\<lparr>inbox := segs2\<rparr>)))"

text \<open>\<^verbatim>\<open>send_message\<close>, again the same code at both ends.\<close>

definition send_message :: "tcp_socket \<Rightarrow> string \<Rightarrow> py_error + tcp_socket" where
  "send_message s message =
     (case to_bytes4 (length message) of
        Inl e \<Rightarrow> Inl e
      | Inr length_bytes \<Rightarrow> Inr (send (length_bytes @ message) s))"

section \<open>JSON values and the Python operations applied to them\<close>

text \<open>
  The values \<^verbatim>\<open>json.loads\<close> returns. Numbers are integers: no message of the protocol
  that the two programs read carries a fraction, and floating point is not modelled. An
  object keeps its keys in insertion order.
\<close>

datatype json =
    JNull | JBool bool | JInt int | JStr string | JList "json list"
  | JObj "(string \<times> json) list"

text \<open>\<^verbatim>\<open>d.get(key)\<close>: only a dict has the method.\<close>

fun py_get :: "json \<Rightarrow> string \<Rightarrow> py_error + json" where
  "py_get (JObj kvs) key = Inr (case map_of kvs key of None \<Rightarrow> JNull | Some v \<Rightarrow> v)"
| "py_get _ key = Inl AttributeError"

text \<open>\<^verbatim>\<open>d[key]\<close> for a string key: KeyError on a dict without it, TypeError on anything else.\<close>

fun py_item :: "json \<Rightarrow> string \<Rightarrow> py_error + json" where
  "py_item (JObj kvs) key = (case map_of kvs key of None \<Rightarrow> Inl KeyError | Some v \<Rightarrow> Inr v)"
| "py_item _ key = Inl TypeError"

text \<open>
  A value used as a number (\<^verbatim>\<open>range(x)\<close>, \<^verbatim>\<open>len(data) < x\<close>, \<^verbatim>\<open>total / x\<close>): an int, or
  a bool, which Python counts as 0 or 1; TypeError otherwise.
\<close>

fun py_number :: "json \<Rightarrow> int option" where
  "py_number (JInt n) = Some n"
| "py_number (JBool b) = Some (if b then 1 else 0)"
| "py_number _ = None"

text \<open>The code points of a string: every byte that is not a continuation byte starts one.\<close>

definition utf8_chars :: "string \<Rightarrow> string list" where
  "utf8_chars text =
     foldr (\<lambda>c groups.
              case groups of
                [] \<Rightarrow> [[c]]
              | g # gs \<Rightarrow>
                  (case g of
                     [] \<Rightarrow> [c] # gs
                   | b # _ \<Rightarrow> if cont_byte (of_char b) then (c # g) # gs else [c] # g # gs))
       text []"

text \<open>Iteration (\<^verbatim>\<open>for x in v\<close>, \<^verbatim>\<open>enumerate(v)\<close>) and \<^verbatim>\<open>len(v)\<close>: TypeError on a non-container.\<close>

fun py_iter :: "json \<Rightarrow> json list option" where
  "py_iter (JList xs) = Some xs"
| "py_iter (JStr text) = Some (map JStr (utf8_chars text))"
| "py_iter (JObj kvs) = Some (map (JStr \<circ> fst) kvs)"
| "py_iter _ = None"

definition py_len :: "json \<Rightarrow> nat option" where
  "py_len v = map_option length (py_iter v)"

text \<open>
  What the file system holds at a path that exists: a regular file that can be read, with
  its content, or anything else, with the size that \<^verbatim>\<open>os.path.getsize\<close> reports for it. The
  second kind is what \<^verbatim>\<open>open(path, 'rb')\<close> refuses with an OSError: a directory (the empty
  name, \<^verbatim>\<open>.\<close> and \<^verbatim>\<open>..\<close> joined to a directory are paths of directories, and so is the name
  of every sub-directory), or a file that the process may not read.
\<close>

datatype node = Regular bytes | Special nat

text \<open>\<^verbatim>\<open>os.path.getsize(path)\<close>\<close>

fun node_size :: "node \<Rightarrow> nat" where
  "node_size (Regular content) = length content"
| "node_size (Special bytes_reported) = bytes_reported"

text \<open>
  What the programs take from outside: the two functions of the \<^verbatim>\<open>json\<close> module
  (\<open>None\<close> from \<open>json_loads\<close> stands for the exception it raises), the text \<^verbatim>\<open>str(e)\<close> of
  an exception, and the entries that \<^verbatim>\<open>send_file_list\<close> builds from the directory (their
  order is that of \<^verbatim>\<open>os.listdir\<close>, and \<^verbatim>\<open>size_mb\<close> is a float).
\<close>

record env =
  json_dumps :: "json \<Rightarrow> string"
  json_loads :: "string \<Rightarrow> json option"
  exc_str :: "py_error \<Rightarrow> string"
  dir_entries :: "(string \<rightharpoonup> node) \<Rightarrow> json list"

text \<open>
  A result that may be an exception: the socket travels with the exception, since what
  was sent before the raise stays sent.
\<close>

type_synonym sock_result = "(py_error \<times> tcp_socket) + tcp_socket"

text \<open>\<^verbatim>\<open>self.send_message(sock, json.dumps(msg))\<close>\<close>

definition send_json :: "env \<Rightarrow> tcp_socket \<Rightarrow> json \<Rightarrow> sock_result" where
  "send_json E s msg =
     (case send_message s (json_dumps E msg) of Inl e \<Rightarrow> Inl (e, s) | Inr s' \<Rightarrow> Inr s')"

section \<open>Messages\<close>

definition error_response :: "string \<Rightarrow> json" where
  "error_response message = JObj [(''type'', JStr ''error''), (''message'', JStr message)]"

definition file_info :: "json \<Rightarrow> nat \<Rightarrow> nat \<Rightarrow> nat \<Rightarrow> json" where
  "file_info filename file_size num_chunks chunk_size =
     JObj [(''type'', JStr ''file_info''), (''filename'', filename),
           (''file_size'', JInt (int file_size)), (''num_chunks'', JInt (int num_chunks)),
           (''chunk_size'', JInt (int chunk_size))]"

definition chunk_info :: "nat \<Rightarrow> nat \<Rightarrow> nat \<Rightarrow> json" where
  "chunk_info chunk_number total_chunks chunk_size =
     JObj [(''type'', JStr ''file_chunk''), (''chunk_number'', JInt (int chunk_number)),
           (''total_chunks'', JInt (int total_chunks)), (''chunk_size'', JInt (int chunk_size))]"

definition completion_msg :: "json \<Rightarrow> json" where
  "completion_msg filename = JObj [(''type'', JStr ''file_complete''), (''filename'', filename)]"

definition start_msg :: "nat \<Rightarrow> json \<Rightarrow> json" where
  "start_msg total_files filenames =
     JObj [(''type'', JStr ''multiple_transfer_start''), (''total_files'', JInt (int total_files)),
           (''filenames'', filenames)]"

definition multi_completion_msg :: "nat \<Rightarrow> json" where
  "multi_completion_msg total_files =
     JObj [(''type'', JStr ''multiple_transfer_complete''),
           (''total_files'', JInt (int total_files))]"

section \<open>The server\<close>

text \<open>
  The served directory is a map from names to what the file system holds:
  \<open>server_directory srv name\<close> is what is found at the path
  \<^verbatim>\<open>os.path.join(server_directory, name)\<close>, and \<open>None\<close> when \<^verbatim>\<open>os.path.exists\<close> is false of that
  path. Two names stand for two paths, and the directory does not change while a request is
  served, so that a regular file is read with the size that \<^verbatim>\<open>getsize\<close> has reported.
\<close>

record endpoint =
  buffer_size :: nat

record server = endpoint +
  chunk_size :: nat
  server_directory :: "string \<rightharpoonup> node"

text \<open>The constructor, with the constants of \<^verbatim>\<open>__init__\<close>.\<close>

definition FileTransferServer :: "(string \<rightharpoonup> node) \<Rightarrow> server" where
  "FileTransferServer directory =
     \<lparr>buffer_size = 4096, chunk_size = 1024 * 1024, server_directory = directory\<rparr>"

text \<open>\<^verbatim>\<open>(file_size + self.chunk_size - 1) // self.chunk_size\<close>\<close>

definition num_chunks_of :: "nat \<Rightarrow> nat \<Rightarrow> py_error + nat" where
  "num_chunks_of csize file_size =
     (if csize = 0 then Inl ZeroDivisionError
      else Inr ((file_size + csize - 1) div csize))"

text \<open>
  The chunk loop of \<^verbatim>\<open>send_file\<close>, over \<^verbatim>\<open>range(num_chunks)\<close>. \<open>f\<close> is the part of the open
  file that has not been read yet, so \<^verbatim>\<open>f.read(self.chunk_size)\<close> is \<open>take csize f\<close>.
\<close>

fun send_chunks :: "env \<Rightarrow> nat \<Rightarrow> nat \<Rightarrow> nat list \<Rightarrow> bytes \<Rightarrow> tcp_socket \<Rightarrow> sock_result" where
  "send_chunks E csize num_chunks [] f s = Inr s"
| "send_chunks E csize num_chunks (chunk_num # rest) f s =
     (let chunk_data = take csize f in
      case send_json E s (chunk_info (chunk_num + 1) num_chunks (length chunk_data)) of
        Inl err \<Rightarrow> Inl err
      | Inr s1 \<Rightarrow>
          send_chunks E csize num_chunks rest (drop csize f) (send chunk_data s1))"

definition quoted :: "string \<Rightarrow> string" where
  "quoted name = [CHR 0x27] @ name @ [CHR 0x27]"

text \<open>
  The body of the \<^verbatim>\<open>try\<close> in \<^verbatim>\<open>send_file\<close>. \<^verbatim>\<open>os.path.join\<close> raises TypeError for a
  \<^verbatim>\<open>filename\<close> that is not a string. The test is \<^verbatim>\<open>os.path.exists\<close>: for a path that exists
  and is no readable regular file the file_info is sent with the size that \<^verbatim>\<open>getsize\<close>
  reports, and then \<^verbatim>\<open>open(filepath, 'rb')\<close> raises.
\<close>

definition send_file_try :: "env \<Rightarrow> server \<Rightarrow> tcp_socket \<Rightarrow> json \<Rightarrow> sock_result" where
  "send_file_try E srv s filename =
     (case filename of
        JStr name \<Rightarrow>
          (case server_directory srv name of
             None \<Rightarrow> send_json E s (error_response (''File '' @ quoted name @ '' not found''))
           | Some found \<Rightarrow>
               (let file_size = node_size found in
                case num_chunks_of (chunk_size srv) file_size of
                  Inl e \<Rightarrow> Inl (e, s)
                | Inr num_chunks \<Rightarrow>
                    (case send_json E s (file_info filename file_size num_chunks (chunk_size srv)) of
                       Inl err \<Rightarrow> Inl err
                     | Inr s1 \<Rightarrow>
                         (case found of
                            Special bytes_reported \<Rightarrow> Inl (OSError, s1)
                          | Regular content \<Rightarrow>
                              (case send_chunks E (chunk_size srv) num_chunks [0..<num_chunks]
                                      content s1 of
                                 Inl err \<Rightarrow> Inl err
                               | Inr s2 \<Rightarrow> send_json E s2 (completion_msg filename))))))
      | _ \<Rightarrow> Inl (TypeError, s))"

definition send_file :: "env \<Rightarrow> server \<Rightarrow> tcp_socket \<Rightarrow> json \<Rightarrow> sock_result" where
  "send_file E srv s filename =
     (case send_file_try E srv s filename of
        Inr s' \<Rightarrow> Inr s'
      | Inl (e, s') \<Rightarrow> send_json E s' (error_response (''Error sending file: '' @ exc_str E e)))"

text \<open>The loop of \<^verbatim>\<open>send_multiple_files\<close>: an exception that leaves \<^verbatim>\<open>send_file\<close> ends it.\<close>

fun send_files :: "env \<Rightarrow> server \<Rightarrow> json list \<Rightarrow> tcp_socket \<Rightarrow> sock_result" where
  "send_files E srv [] s = Inr s"
| "send_files E srv (filename # rest) s =
     (case send_file E srv s filename of
        Inl err \<Rightarrow> Inl err
      | Inr s1 \<Rightarrow> send_files E srv rest s1)"

definition send_multiple_files_try :: "env \<Rightarrow> server \<Rightarrow> tcp_socket \<Rightarrow> json \<Rightarrow> sock_result" where
  "send_multiple_files_try E srv s filenames =
     (case py_iter filenames of
        None \<Rightarrow> Inl (TypeError, s)
      | Some names \<Rightarrow>
          (case send_json E s (start_msg (length names) filenames) of
             Inl err \<Rightarrow> Inl err
           | Inr s1 \<Rightarrow>
               (case send_files E srv names s1 of
                  Inl err \<Rightarrow> Inl err
                | Inr s2 \<Rightarrow> send_json E s2 (multi_completion_msg (length names)))))"

definition send_multiple_files :: "env \<Rightarrow> server \<Rightarrow> tcp_socket \<Rightarrow> json \<Rightarrow> sock_result" where
  "send_multiple_files E srv s filenames =
     (case send_multiple_files_try E srv s filenames of
        Inr s' \<Rightarrow> Inr s'
      | Inl (e, s') \<Rightarrow>
          send_json E s' (error_response (''Error in multiple file transfer: '' @ exc_str E e)))"

definition send_file_list :: "env \<Rightarrow> server \<Rightarrow> tcp_socket \<Rightarrow> sock_result" where
  "send_file_list E srv s =
     (case send_json E s (JObj [(''type'', JStr ''file_list''),
                                (''files'', JList (dir_entries E (server_directory srv)))]) of
        Inr s' \<Rightarrow> Inr s'
      | Inl (e, s') \<Rightarrow> send_json E s' (error_response (''Error listing files: '' @ exc_str E e)))"

text \<open>
  One turn of the loop of \<^verbatim>\<open>handle_client\<close>, from \<^verbatim>\<open>json.loads\<close> on: the flag says whether
  the loop goes on (\<open>False\<close> is the \<^verbatim>\<open>break\<close> on \<^verbatim>\<open>disconnect\<close>). A command of an unknown
  type is skipped without an answer.
\<close>

type_synonym step_result = "(py_error \<times> tcp_socket) + (bool \<times> tcp_socket)"

definition continue :: "sock_result \<Rightarrow> step_result" where
  "continue r = (case r of Inl err \<Rightarrow> Inl err | Inr s \<Rightarrow> Inr (True, s))"

definition serve_command :: "env \<Rightarrow> server \<Rightarrow> tcp_socket \<Rightarrow> string \<Rightarrow> step_result" where
  "serve_command E srv s command_data =
     (case json_loads E command_data of
        None \<Rightarrow> Inl (JSONDecodeError, s)
      | Some command \<Rightarrow>
          (case py_get command ''type'' of
             Inl e \<Rightarrow> Inl (e, s)
           | Inr cmd_type \<Rightarrow>
               if cmd_type = JStr ''list_files'' then continue (send_file_list E srv s)
               else if cmd_type = JStr ''download_file'' then
                 (case py_get command ''filename'' of
                    Inl e \<Rightarrow> Inl (e, s)
                  | Inr filename \<Rightarrow> continue (send_file E srv s filename))
               else if cmd_type = JStr ''download_multiple'' then
                 (case py_get command ''filenames'' of
                    Inl e \<Rightarrow> Inl (e, s)
                  | Inr filenames \<Rightarrow> continue (send_multiple_files E srv s filenames))
               else if cmd_type = JStr ''disconnect'' then Inr (False, s)
               else Inr (True, s)))"

definition result_sock :: "sock_result \<Rightarrow> tcp_socket" where
  "result_sock r = (case r of Inl (e, s) \<Rightarrow> s | Inr s \<Rightarrow> s)"

definition step_sock :: "step_result \<Rightarrow> tcp_socket" where
  "step_sock r = (case r of Inl (e, s) \<Rightarrow> s | Inr (b, s) \<Rightarrow> s)"

lemma inbox_send [simp]: "inbox (send data s) = inbox s"
  by (simp add: send_def)

lemma inbox_send_json [simp]: "inbox (result_sock (send_json E s msg)) = inbox s"
  by (simp add: send_json_def send_message_def result_sock_def split: sum.splits)

lemma result_sock_simps [simp]:
  "result_sock (Inl (e, s)) = s" "result_sock (Inr s) = s"
  by (simp_all add: result_sock_def)

lemma step_sock_simps [simp]:
  "step_sock (Inl (e, s)) = s" "step_sock (Inr (b, s)) = s"
  "step_sock (continue r) = result_sock r"
  by (simp_all add: step_sock_def continue_def result_sock_def split: sum.splits)

lemma inbox_send_json_cases:
  "send_json E s msg = Inl (e, s') \<Longrightarrow> inbox s' = inbox s"
  "send_json E s msg = Inr s' \<Longrightarrow> inbox s' = inbox s"
  using inbox_send_json[of E s msg] by simp_all

lemma inbox_send_chunks [simp]:
  "inbox (result_sock (send_chunks E csize n ks f s)) = inbox s"
proof (induction ks arbitrary: f s)
  case Nil
  show ?case by simp
next
  case (Cons k ks)
  show ?case
    using Cons.IH
    by (auto simp: Let_def split: sum.splits dest: inbox_send_json_cases)
qed

lemma inbox_send_chunks_cases:
  "send_chunks E csize n ks f s = Inl (e, s') \<Longrightarrow> inbox s' = inbox s"
  "send_chunks E csize n ks f s = Inr s' \<Longrightarrow> inbox s' = inbox s"
  using inbox_send_chunks[of E csize n ks f s] by simp_all

lemma inbox_send_file_try [simp]:
  "inbox (result_sock (send_file_try E srv s filename)) = inbox s"
  by (auto simp: send_file_try_def Let_def
      split: json.splits option.splits sum.splits node.splits
      dest!: inbox_send_json_cases inbox_send_chunks_cases)

lemma inbox_send_file [simp]: "inbox (result_sock (send_file E srv s filename)) = inbox s"
proof (cases "send_file_try E srv s filename")
  case (Inl err)
  obtain e s' where err: "err = (e, s')" by (cases err)
  with Inl inbox_send_file_try[of E srv s filename] have "inbox s' = inbox s" by simp
  with Inl err show ?thesis by (simp add: send_file_def)
next
  case (Inr s')
  with inbox_send_file_try[of E srv s filename] show ?thesis by (simp add: send_file_def)
qed

lemma inbox_send_files [simp]: "inbox (result_sock (send_files E srv names s)) = inbox s"
proof (induction names arbitrary: s)
  case Nil
  show ?case by simp
next
  case (Cons name names)
  show ?case
  proof (cases "send_file E srv s name")
    case (Inl err)
    with inbox_send_file[of E srv s name] show ?thesis by (cases err) simp
  next
    case (Inr s1)
    with inbox_send_file[of E srv s name] Cons.IH[of s1] show ?thesis by simp
  qed
qed

lemma inbox_send_multiple_files_try [simp]:
  "inbox (result_sock (send_multiple_files_try E srv s filenames)) = inbox s"
proof (cases "py_iter filenames")
  case None
  then show ?thesis by (simp add: send_multiple_files_try_def)
next
  case (Some names)
  show ?thesis
  proof (cases "send_json E s (start_msg (length names) filenames)")
    case (Inl err)
    with Some inbox_send_json[of E s "start_msg (length names) filenames"] show ?thesis
      by (cases err) (simp add: send_multiple_files_try_def)
  next
    case s1: (Inr s1)
    with inbox_send_json[of E s "start_msg (length names) filenames"]
    have i1: "inbox s1 = inbox s" by simp
    show ?thesis
    proof (cases "send_files E srv names s1")
      case (Inl err)
      with Some s1 i1 inbox_send_files[of E srv names s1] show ?thesis
        by (cases err) (simp add: send_multiple_files_try_def)
    next
      case (Inr s2)
      with inbox_send_files[of E srv names s1] i1 have "inbox s2 = inbox s" by simp
      with Some s1 Inr inbox_send_json[of E s2 "multi_completion_msg (length names)"]
      show ?thesis by (simp add: send_multiple_files_try_def)
    qed
  qed
qed

lemma inbox_send_multiple_files [simp]:
  "inbox (result_sock (send_multiple_files E srv s filenames)) = inbox s"
proof (cases "send_multiple_files_try E srv s filenames")
  case (Inl err)
  obtain e s' where err: "err = (e, s')" by (cases err)
  with Inl inbox_send_multiple_files_try[of E srv s filenames] have "inbox s' = inbox s" by simp
  with Inl err show ?thesis by (simp add: send_multiple_files_def)
next
  case (Inr s')
  with inbox_send_multiple_files_try[of E srv s filenames] show ?thesis
    by (simp add: send_multiple_files_def)
qed

lemma inbox_send_file_list [simp]: "inbox (result_sock (send_file_list E srv s)) = inbox s"
  by (auto simp: send_file_list_def split: sum.splits dest: inbox_send_json_cases)

lemma inbox_serve_command [simp]:
  "inbox (step_sock (serve_command E srv s command_data)) = inbox s"
  by (simp add: serve_command_def split: option.splits sum.splits)

lemma recv_concat: "recv n segs = (chunk, segs') \<Longrightarrow> chunk @ concat segs' = concat segs"
  by (induction segs) (auto split: if_splits)

lemma recv_exact_concat:
  "recv_exact buf n data segs = (finished, data', segs')
   \<Longrightarrow> data' @ concat segs' = data @ concat segs"
proof (induction buf n data segs rule: recv_exact.induct)
  case (1 buf n data segs)
  obtain chunk segs1 where r: "recv (min (n - length data) buf) segs = (chunk, segs1)"
    by (cases "recv (min (n - length data) buf) segs")
  show ?case
  proof (cases "length data < n \<and> chunk \<noteq> []")
    case True
    with "1.prems" r have "recv_exact buf n (data @ chunk) segs1 = (finished, data', segs')"
      by (subst (asm) recv_exact.simps) simp
    with "1.IH"[OF _ r[symmetric]] True
    have "data' @ concat segs' = (data @ chunk) @ concat segs1" by simp
    with recv_concat[OF r] show ?thesis by simp
  next
    case False
    with "1.prems" r recv_concat[OF r] show ?thesis
      by (subst (asm) recv_exact.simps) (auto split: if_splits)
  qed
qed

lemma receive_message_shrinks:
  assumes "receive_message buf s = (Some text, s1)"
  shows "length (concat (inbox s1)) < length (concat (inbox s))"
proof -
  obtain length_data segs1 where r: "recv 4 (inbox s) = (length_data, segs1)"
    by (cases "recv 4 (inbox s)")
  obtain finished message_data segs2 where
    e: "recv_exact buf (int_from_bytes length_data) [] segs1 = (finished, message_data, segs2)"
    by (cases "recv_exact buf (int_from_bytes length_data) [] segs1")
  from assms r e have ne: "length_data \<noteq> []" and s1: "inbox s1 = segs2"
    by (auto simp: receive_message_def split: if_splits)
  from recv_concat[OF r] have "length (concat (inbox s)) = length length_data + length (concat segs1)"
    by (metis length_append)
  moreover from recv_exact_concat[OF e] have "length (concat segs2) \<le> length (concat segs1)"
    by (metis append_Nil le_add2 length_append)
  ultimately show ?thesis using ne s1 by (simp add: neq_Nil_conv) auto
qed

text \<open>The \<^verbatim>\<open>while True\<close> loop of \<^verbatim>\<open>handle_client\<close>; an empty \<^verbatim>\<open>command_data\<close> is falsy.\<close>

function handle_loop :: "env \<Rightarrow> server \<Rightarrow> tcp_socket \<Rightarrow> sock_result" where
  "handle_loop E srv s =
     (case receive_message (buffer_size srv) s of
        (command_data, s1) \<Rightarrow>
          (case command_data of
             None \<Rightarrow> Inr s1
           | Some command_text \<Rightarrow>
               if command_text = [] then Inr s1
               else
                 (case serve_command E srv s1 command_text of
                    Inl err \<Rightarrow> Inl err
                  | Inr (go_on, s2) \<Rightarrow> if go_on then handle_loop E srv s2 else Inr s2)))"
  by pat_completeness auto
termination
proof (relation "measure (\<lambda>(E, srv, s). length (concat (inbox s)))", goal_cases)
  case 1
  show ?case by simp
next
  case (2 E srv s x y msg b go_on s2)
  from 2 have "receive_message (buffer_size srv) s = (Some msg, y)" by simp
  from receive_message_shrinks[OF this]
  have "length (concat (inbox y)) < length (concat (inbox s))" .
  moreover from 2 inbox_serve_command[of E srv y msg] have "inbox s2 = inbox y" by auto
  ultimately show ?case by simp
qed

declare handle_loop.simps [simp del]

text \<open>
  \<^verbatim>\<open>handle_client\<close>: whatever ends the loop, the \<^verbatim>\<open>finally\<close> clause closes the socket. The
  first component is the exception that the outer \<^verbatim>\<open>except\<close> caught and printed, if any.
\<close>

definition handle_client :: "env \<Rightarrow> server \<Rightarrow> tcp_socket \<Rightarrow> py_error option \<times> tcp_socket" where
  "handle_client E srv s =
     (case handle_loop E srv s of
        Inr s' \<Rightarrow> (None, close s')
      | Inl (e, s') \<Rightarrow> (Some e, close s'))"

section \<open>The client\<close>

text \<open>
  The download directory, as the client's file system shows it. \<open>download_directory c name\<close>
  is the content of the regular file at \<^verbatim>\<open>os.path.join(download_directory, name)\<close>, and
  \<open>None\<close> when there is no such file. \<open>writable c name\<close> says that \<^verbatim>\<open>open(path, 'wb')\<close>
  succeeds at that path: a file can be created there, or the file that is there can be
  written. It does not for the empty name and \<^verbatim>\<open>.\<close>, which give the path of the directory
  itself, for a name like \<^verbatim>\<open>sub/a.txt\<close> when the directory has no \<^verbatim>\<open>sub\<close>, for a name with a
  NUL character, for a file that may not be written. Two names stand for two paths.

  \<^verbatim>\<open>open(path, 'wb')\<close> makes the name an empty file, whatever it held, or raises (all that the
  caller does with the exception is to catch it, so one kind stands for all); \<^verbatim>\<open>f.write\<close>
  appends. Every path out of the \<^verbatim>\<open>with\<close> block closes the file, so what was written stays.
  Of the console output the model keeps one thing, in \<open>downloaded\<close>: the file names of the
  lines \<^verbatim>\<open>Successfully downloaded <name>\<close>, in order.
\<close>

record client = endpoint +
  download_directory :: "string \<rightharpoonup> bytes"
  writable :: "string \<Rightarrow> bool"
  socket :: tcp_socket
  downloaded :: "string list"

text \<open>A client after \<^verbatim>\<open>__init__\<close> and \<^verbatim>\<open>connect()\<close>.\<close>

definition FileTransferClient ::
    "(string \<rightharpoonup> bytes) \<Rightarrow> (string \<Rightarrow> bool) \<Rightarrow> tcp_socket \<Rightarrow> client" where
  "FileTransferClient directory can_write sock =
     \<lparr>buffer_size = 4096, download_directory = directory, writable = can_write, socket = sock,
      downloaded = []\<rparr>"

text \<open>The state in which a successful \<^verbatim>\<open>open(path, 'wb')\<close> leaves the directory.\<close>

definition create_file :: "string \<Rightarrow> client \<Rightarrow> client" where
  "create_file name c = c\<lparr>download_directory := (download_directory c)(name \<mapsto> [])\<rparr>"

definition open_wb :: "string \<Rightarrow> client \<Rightarrow> (py_error \<times> client) + client" where
  "open_wb name c = (if writable c name then Inr (create_file name c) else Inl (OSError, c))"

definition file_write :: "string \<Rightarrow> bytes \<Rightarrow> client \<Rightarrow> client" where
  "file_write name data c =
     c\<lparr>download_directory := (download_directory c)
          (name \<mapsto> (case download_directory c name of None \<Rightarrow> data | Some old \<Rightarrow> old @ data))\<rparr>"

type_synonym client_result = "(py_error \<times> client) + (bool \<times> client)"


text \<open>
  The pattern \<^verbatim>\<open>data = self.receive_message()\<close>, a test of \<^verbatim>\<open>data\<close> for truth, then
  \<^verbatim>\<open>json.loads(data)\<close>: \<open>Nothing\<close> when \<^verbatim>\<open>data\<close> is \<^verbatim>\<open>None\<close> or empty, \<open>Invalid\<close> when
  \<^verbatim>\<open>json.loads\<close> raises.
\<close>

datatype received = Nothing | Invalid | Message json

definition receive_json :: "env \<Rightarrow> client \<Rightarrow> received \<times> client" where
  "receive_json E c =
     (case receive_message (buffer_size c) (socket c) of
        (data, s') \<Rightarrow>
          ((case data of
              None \<Rightarrow> Nothing
            | Some msg \<Rightarrow>
                if msg = [] then Nothing
                else (case json_loads E msg of None \<Rightarrow> Invalid | Some v \<Rightarrow> Message v)),
           c\<lparr>socket := s'\<rparr>))"

text \<open>
  The raw bytes of one chunk: the \<^verbatim>\<open>while len(chunk_data) < chunk_size\<close> loop, which is
  the loop of \<^verbatim>\<open>receive_message\<close> again.
\<close>

definition recv_chunk :: "nat \<Rightarrow> client \<Rightarrow> bool \<times> bytes \<times> client" where
  "recv_chunk n c =
     (case recv_exact (buffer_size c) n [] (inbox (socket c)) of
        (finished, chunk_data, segs) \<Rightarrow> (finished, chunk_data, c\<lparr>socket := (socket c)\<lparr>inbox := segs\<rparr>\<rparr>))"

text \<open>
  \<^verbatim>\<open>progress = (total_received / file_size) * 100\<close> is only printed; what the model keeps
  of it is whether the division raises.
\<close>

definition progress :: "json \<Rightarrow> py_error option" where
  "progress file_size =
     (case py_number file_size of
        None \<Rightarrow> Some TypeError
      | Some n \<Rightarrow> if n = 0 then Some ZeroDivisionError else None)"

text \<open>
  The chunk loop of \<^verbatim>\<open>download_file\<close>. \<open>Inr (False, c)\<close> is a \<^verbatim>\<open>return False\<close> from inside
  the loop, \<open>Inr (True, c)\<close> its normal end. When the connection is lost inside a chunk,
  the bytes of that chunk read so far are dropped with \<^verbatim>\<open>chunk_data\<close>.
\<close>

fun receive_chunks :: "env \<Rightarrow> string \<Rightarrow> json \<Rightarrow> nat list \<Rightarrow> client \<Rightarrow> client_result" where
  "receive_chunks E name file_size [] c = Inr (True, c)"
| "receive_chunks E name file_size (chunk_num # rest) c =
     (case receive_json E c of
        (Nothing, c1) \<Rightarrow> Inr (False, c1)
      | (Invalid, c1) \<Rightarrow> Inl (JSONDecodeError, c1)
      | (Message header, c1) \<Rightarrow>
          (case py_item header ''chunk_size'' of
             Inl e \<Rightarrow> Inl (e, c1)
           | Inr size_field \<Rightarrow>
               (case py_item header ''chunk_number'' of
                  Inl e \<Rightarrow> Inl (e, c1)
                | Inr chunk_number \<Rightarrow>
                    (case py_number size_field of
                       None \<Rightarrow> Inl (TypeError, c1)
                     | Some n \<Rightarrow>
                         (case recv_chunk (nat n) c1 of
                            (finished, chunk_data, c2) \<Rightarrow>
                              if \<not> finished then Inr (False, c2)
                              else
                                (let c3 = file_write name chunk_data c2 in
                                 case progress file_size of
                                   Some e \<Rightarrow> Inl (e, c3)
                                 | None \<Rightarrow> receive_chunks E name file_size rest c3))))))"

text \<open>\<^verbatim>\<open>download_file\<close> from the moment the response is known to be a \<^verbatim>\<open>file_info\<close>.\<close>

definition save_file :: "env \<Rightarrow> client \<Rightarrow> json \<Rightarrow> client_result" where
  "save_file E c response =
     (case py_item response ''filename'' of
        Inl e \<Rightarrow> Inl (e, c)
      | Inr filename \<Rightarrow>
     (case py_item response ''file_size'' of
        Inl e \<Rightarrow> Inl (e, c)
      | Inr file_size \<Rightarrow>
     (case py_item response ''num_chunks'' of
        Inl e \<Rightarrow> Inl (e, c)
      | Inr num_chunks \<Rightarrow>
     (case filename of
        JStr name \<Rightarrow>
          (case open_wb name c of
             Inl err \<Rightarrow> Inl err
           | Inr c1 \<Rightarrow>
          (case py_number num_chunks of
             None \<Rightarrow> Inl (TypeError, c1)
           | Some n \<Rightarrow>
               (case receive_chunks E name file_size [0..<nat n] c1 of
                  Inl err \<Rightarrow> Inl err
                | Inr (False, c2) \<Rightarrow> Inr (False, c2)
                | Inr (True, c2) \<Rightarrow>
                    (case receive_json E c2 of
                       (Nothing, c3) \<Rightarrow> Inr (False, c3)
                     | (Invalid, c3) \<Rightarrow> Inl (JSONDecodeError, c3)
                     | (Message completion, c3) \<Rightarrow>
                         (case py_item completion ''type'' of
                            Inl e \<Rightarrow> Inl (e, c3)
                          | Inr ty \<Rightarrow>
                              if ty = JStr ''file_complete''
                              then Inr (True, c3\<lparr>downloaded := downloaded c3 @ [name]\<rparr>)
                              else Inr (False, c3))))))
      | _ \<Rightarrow> Inl (TypeError, c)))))"

definition download_cmd :: "string \<Rightarrow> json" where
  "download_cmd filename = JObj [(''type'', JStr ''download_file''), (''filename'', JStr filename)]"

definition download_file_try :: "env \<Rightarrow> client \<Rightarrow> string \<Rightarrow> client_result" where
  "download_file_try E c filename =
     (case send_json E (socket c) (download_cmd filename) of
        Inl (e, s) \<Rightarrow> Inl (e, c)
      | Inr s1 \<Rightarrow>
          (case receive_json E (c\<lparr>socket := s1\<rparr>) of
             (Nothing, c1) \<Rightarrow> Inr (False, c1)
           | (Invalid, c1) \<Rightarrow> Inl (JSONDecodeError, c1)
           | (Message response, c1) \<Rightarrow>
               (case py_item response ''type'' of
                  Inl e \<Rightarrow> Inl (e, c1)
                | Inr ty \<Rightarrow>
                    if ty = JStr ''error'' then
                      (case py_item response ''message'' of
                         Inl e \<Rightarrow> Inl (e, c1)
                       | Inr message \<Rightarrow> Inr (False, c1))
                    else if ty \<noteq> JStr ''file_info'' then Inr (False, c1)
                    else save_file E c1 response)))"

text \<open>Every exception ends in \<^verbatim>\<open>return False\<close>.\<close>

definition download_file :: "env \<Rightarrow> client \<Rightarrow> string \<Rightarrow> bool \<times> client" where
  "download_file E c filename =
     (case download_file_try E c filename of
        Inl (e, c') \<Rightarrow> (False, c')
      | Inr r \<Rightarrow> r)"

text \<open>
  The chunk loop of \<^verbatim>\<open>download_multiple_files\<close>. Here a missing header leaves the loop with
  \<^verbatim>\<open>break\<close>, and a connection lost inside a chunk leaves only the inner \<^verbatim>\<open>while\<close>: the
  bytes read so far are written and the \<^verbatim>\<open>for\<close> loop goes on.
\<close>

fun receive_chunks_multi ::
    "env \<Rightarrow> string \<Rightarrow> json \<Rightarrow> nat list \<Rightarrow> client \<Rightarrow> (py_error \<times> client) + client" where
  "receive_chunks_multi E name file_size [] c = Inr c"
| "receive_chunks_multi E name file_size (chunk_num # rest) c =
     (case receive_json E c of
        (Nothing, c1) \<Rightarrow> Inr c1
      | (Invalid, c1) \<Rightarrow> Inl (JSONDecodeError, c1)
      | (Message header, c1) \<Rightarrow>
          (case py_item header ''chunk_size'' of
             Inl e \<Rightarrow> Inl (e, c1)
           | Inr size_field \<Rightarrow>
               (case py_item header ''chunk_number'' of
                  Inl e \<Rightarrow> Inl (e, c1)
                | Inr chunk_number \<Rightarrow>
                    (case py_number size_field of
                       None \<Rightarrow> Inl (TypeError, c1)
                     | Some n \<Rightarrow>
                         (case recv_chunk (nat n) c1 of
                            (finished, chunk_data, c2) \<Rightarrow>
                              (let c3 = file_write name chunk_data c2 in
                               case progress file_size of
                                 Some e \<Rightarrow> Inl (e, c3)
                               | None \<Rightarrow> receive_chunks_multi E name file_size rest c3))))))"

text \<open>One file of a multi-file download, from its \<^verbatim>\<open>file_info\<close> to its completion message.\<close>

definition save_file_multi :: "env \<Rightarrow> client \<Rightarrow> json \<Rightarrow> (py_error \<times> client) + client" where
  "save_file_multi E c info =
     (case py_item info ''filename'' of
        Inl e \<Rightarrow> Inl (e, c)
      | Inr filename \<Rightarrow>
     (case py_item info ''file_size'' of
        Inl e \<Rightarrow> Inl (e, c)
      | Inr file_size \<Rightarrow>
     (case py_item info ''num_chunks'' of
        Inl e \<Rightarrow> Inl (e, c)
      | Inr num_chunks \<Rightarrow>
     (case filename of
        JStr name \<Rightarrow>
          (case open_wb name c of
             Inl err \<Rightarrow> Inl err
           | Inr c1 \<Rightarrow>
          (case py_number num_chunks of
             None \<Rightarrow> Inl (TypeError, c1)
           | Some n \<Rightarrow>
               (case receive_chunks_multi E name file_size [0..<nat n] c1 of
                  Inl err \<Rightarrow> Inl err
                | Inr c2 \<Rightarrow>
                    (case receive_json E c2 of
                       (Nothing, c3) \<Rightarrow> Inr c3
                     | (Invalid, c3) \<Rightarrow> Inl (JSONDecodeError, c3)
                     | (Message completion, c3) \<Rightarrow>
                         (case py_item completion ''type'' of
                            Inl e \<Rightarrow> Inl (e, c3)
                          | Inr ty \<Rightarrow>
                              if ty = JStr ''file_complete''
                              then Inr (c3\<lparr>downloaded := downloaded c3 @ [name]\<rparr>)
                              else Inr c3)))))
      | _ \<Rightarrow> Inl (TypeError, c)))))"

text \<open>
  The loop over \<^verbatim>\<open>range(total_files)\<close>: an \<^verbatim>\<open>error\<close> message in the place of a
  \<^verbatim>\<open>file_info\<close> is printed and the loop goes to the next file.
\<close>

fun receive_files :: "env \<Rightarrow> nat list \<Rightarrow> client \<Rightarrow> client_result" where
  "receive_files E [] c = Inr (True, c)"
| "receive_files E (file_index # rest) c =
     (case receive_json E c of
        (Nothing, c1) \<Rightarrow> Inr (False, c1)
      | (Invalid, c1) \<Rightarrow> Inl (JSONDecodeError, c1)
      | (Message info, c1) \<Rightarrow>
          (case py_item info ''type'' of
             Inl e \<Rightarrow> Inl (e, c1)
           | Inr ty \<Rightarrow>
               if ty = JStr ''error'' then
                 (case py_item info ''message'' of
                    Inl e \<Rightarrow> Inl (e, c1)
                  | Inr message \<Rightarrow> receive_files E rest c1)
               else
                 (case save_file_multi E c1 info of
                    Inl err \<Rightarrow> Inl err
                  | Inr c2 \<Rightarrow> receive_files E rest c2)))"

definition download_multiple_cmd :: "string list \<Rightarrow> json" where
  "download_multiple_cmd filenames =
     JObj [(''type'', JStr ''download_multiple''), (''filenames'', JList (map JStr filenames))]"

definition download_multiple_files_try :: "env \<Rightarrow> client \<Rightarrow> string list \<Rightarrow> client_result" where
  "download_multiple_files_try E c filenames =
     (case send_json E (socket c) (download_multiple_cmd filenames) of
        Inl (e, s) \<Rightarrow> Inl (e, c)
      | Inr s1 \<Rightarrow>
          (case receive_json E (c\<lparr>socket := s1\<rparr>) of
             (Nothing, c1) \<Rightarrow> Inr (False, c1)
           | (Invalid, c1) \<Rightarrow> Inl (JSONDecodeError, c1)
           | (Message response, c1) \<Rightarrow>
               (case py_item response ''type'' of
                  Inl e \<Rightarrow> Inl (e, c1)
                | Inr ty \<Rightarrow>
                    if ty = JStr ''error'' then
                      (case py_item response ''message'' of
                         Inl e \<Rightarrow> Inl (e, c1)
                       | Inr message \<Rightarrow> Inr (False, c1))
                    else if ty \<noteq> JStr ''multiple_transfer_start'' then Inr (False, c1)
                    else
                      (case py_item response ''total_files'' of
                         Inl e \<Rightarrow> Inl (e, c1)
                       | Inr total_files \<Rightarrow>
                           (case py_number total_files of
                              None \<Rightarrow> Inl (TypeError, c1)
                            | Some n \<Rightarrow>
                                (case receive_files E [0..<nat n] c1 of
                                   Inl err \<Rightarrow> Inl err
                                 | Inr (False, c2) \<Rightarrow> Inr (False, c2)
                                 | Inr (True, c2) \<Rightarrow>
                                     (case receive_json E c2 of
                                        (Nothing, c3) \<Rightarrow> Inr (False, c3)
                                      | (Invalid, c3) \<Rightarrow> Inl (JSONDecodeError, c3)
                                      | (Message final, c3) \<Rightarrow>
                                          (case py_item final ''type'' of
                                             Inl e \<Rightarrow> Inl (e, c3)
                                           | Inr fty \<Rightarrow>
                                               Inr (fty = JStr ''multiple_transfer_complete'', c3)))))))))"

definition download_multiple_files :: "env \<Rightarrow> client \<Rightarrow> string list \<Rightarrow> bool \<times> client" where
  "download_multiple_files E c filenames =
     (case download_multiple_files_try E c filenames of
        Inl (e, c') \<Rightarrow> (False, c')
      | Inr r \<Rightarrow> r)"

section \<open>What travels on the wire\<close>

text \<open>
  What one end sends is a sequence of frames (a 4-byte length and a text) and raw byte
  strings. \<open>delivers items segs\<close> says that the input \<open>segs\<close> of the other end starts with
  the bytes of \<open>items\<close>, cut into segments so that the first read of every frame finds the
  four bytes of its length in one segment. The cuts are free everywhere else.
\<close>

datatype item = Frame string | Raw bytes

fun item_bytes :: "item \<Rightarrow> bytes" where
  "item_bytes (Frame msg) = length_prefix (length msg) @ msg"
| "item_bytes (Raw data) = data"

text \<open>The first segment that holds a byte.\<close>

fun next_seg :: "bytes list \<Rightarrow> bytes" where
  "next_seg [] = []"
| "next_seg (seg # segs) = (if seg = [] then next_seg segs else seg)"

text \<open>The input after its first \<open>n\<close> bytes have been read.\<close>

fun drop_bytes :: "nat \<Rightarrow> bytes list \<Rightarrow> bytes list" where
  "drop_bytes n [] = []"
| "drop_bytes n (seg # segs) =
     (if n = 0 then seg # segs
      else if n < length seg then drop n seg # segs
      else drop_bytes (n - length seg) segs)"

fun delivers :: "item list \<Rightarrow> bytes list \<Rightarrow> bool" where
  "delivers [] segs = True"
| "delivers (Frame msg # items) segs =
     (4 \<le> length (next_seg segs) \<and>
      take (4 + length msg) (concat segs) = length_prefix (length msg) @ msg \<and>
      delivers items (drop_bytes (4 + length msg) segs))"
| "delivers (Raw data # items) segs =
     (take (length data) (concat segs) = data \<and>
      delivers items (drop_bytes (length data) segs))"

text \<open>
  A text that the receiver accepts as the value \<open>v\<close>: it is not empty, is well-formed UTF-8,
  is shorter than \<open>2^32\<close> bytes, and \<^verbatim>\<open>json.loads\<close> reads it as \<open>v\<close>.
\<close>

definition reads_as :: "env \<Rightarrow> string \<Rightarrow> json \<Rightarrow> bool" where
  "reads_as E msg v =
     (msg \<noteq> [] \<and> utf8_valid msg \<and> length msg < 2 ^ 32 \<and> json_loads E msg = Some v)"

text \<open>
  What the theorems ask of the \<^verbatim>\<open>json\<close> module for a message \<open>m\<close> that one end sends:
  the other end accepts its text (which is ASCII with the default \<^verbatim>\<open>ensure_ascii\<close>) as \<open>m\<close>.
\<close>

definition round_trips :: "env \<Rightarrow> json \<Rightarrow> bool" where
  "round_trips E m = reads_as E (json_dumps E m) m"

text \<open>
  The trace of the chunk loop of \<^verbatim>\<open>send_file\<close>: for every chunk number its header and
  its bytes; and the trace of a whole file.
\<close>

fun chunk_items :: "env \<Rightarrow> nat \<Rightarrow> nat \<Rightarrow> nat list \<Rightarrow> bytes \<Rightarrow> item list" where
  "chunk_items E csize n [] f = []"
| "chunk_items E csize n (k # ks) f =
     Frame (json_dumps E (chunk_info (k + 1) n (length (take csize f)))) # Raw (take csize f)
       # chunk_items E csize n ks (drop csize f)"

definition file_items :: "env \<Rightarrow> nat \<Rightarrow> string \<Rightarrow> bytes \<Rightarrow> item list" where
  "file_items E csize name content =
     (let n = (length content + csize - 1) div csize in
      Frame (json_dumps E (file_info (JStr name) (length content) n csize))
        # chunk_items E csize n [0..<n] content
        @ [Frame (json_dumps E (completion_msg (JStr name)))])"

text \<open>A frame can be sent when its text is shorter than \<open>2^32\<close> bytes.\<close>

fun sendable :: "item \<Rightarrow> bool" where
  "sendable (Frame msg) = (length msg < 2 ^ 32)"
| "sendable (Raw data) = True"

text \<open>
  A chunk as it arrives: the text of a header and the raw bytes after it. The header is in
  order when it reads as a value with a \<^verbatim>\<open>chunk_number\<close> and with a \<^verbatim>\<open>chunk_size\<close> that is the
  number of bytes that follow.
\<close>

definition header_ok :: "env \<Rightarrow> string \<times> bytes \<Rightarrow> bool" where
  "header_ok E chunk =
     (case json_loads E (fst chunk) of
        None \<Rightarrow> False
      | Some header \<Rightarrow>
          reads_as E (fst chunk) header \<and>
          (case py_item header ''chunk_size'' of
             Inl e \<Rightarrow> False
           | Inr size_field \<Rightarrow>
               (case py_number size_field of
                  None \<Rightarrow> False
                | Some n \<Rightarrow> nat n = length (snd chunk))) \<and>
          (case py_item header ''chunk_number'' of Inl e \<Rightarrow> False | Inr chunk_number \<Rightarrow> True))"

fun chunk_stream :: "(string \<times> bytes) list \<Rightarrow> item list" where
  "chunk_stream [] = []"
| "chunk_stream (chunk # chunks) = Frame (fst chunk) # Raw (snd chunk) # chunk_stream chunks"

text \<open>The number of bytes of a sequence of items, and a client whose socket has read \<open>n\<close> bytes.\<close>

definition wire_length :: "item list \<Rightarrow> nat" where
  "wire_length items = length (concat (map item_bytes items))"

definition consume :: "nat \<Rightarrow> client \<Rightarrow> client" where
  "consume n c = c\<lparr>socket := (socket c)\<lparr>inbox := drop_bytes n (inbox (socket c))\<rparr>\<rparr>"

text \<open>The chunks of the chunk loop of \<^verbatim>\<open>send_file\<close> as pairs, and the messages of a file.\<close>

fun chunk_pairs :: "env \<Rightarrow> nat \<Rightarrow> nat \<Rightarrow> nat list \<Rightarrow> bytes \<Rightarrow> (string \<times> bytes) list" where
  "chunk_pairs E csize n [] f = []"
| "chunk_pairs E csize n (k # ks) f =
     (json_dumps E (chunk_info (k + 1) n (length (take csize f))), take csize f)
       # chunk_pairs E csize n ks (drop csize f)"

fun chunk_msgs :: "nat \<Rightarrow> nat \<Rightarrow> nat list \<Rightarrow> bytes \<Rightarrow> json list" where
  "chunk_msgs csize n [] f = []"
| "chunk_msgs csize n (k # ks) f =
     chunk_info (k + 1) n (length (take csize f)) # chunk_msgs csize n ks (drop csize f)"

definition file_msgs :: "nat \<Rightarrow> string \<Rightarrow> bytes \<Rightarrow> json list" where
  "file_msgs csize name content =
     (let n = (length content + csize - 1) div csize in
      file_info (JStr name) (length content) n csize
        # chunk_msgs csize n [0..<n] content
        @ [completion_msg (JStr name)])"

text \<open>
  The answer of \<^verbatim>\<open>send_file\<close> for a name at whose path nothing exists, its two messages for a
  path that exists and cannot be opened, and the traces of a multi-file transfer: for every
  requested name, in order, what \<^verbatim>\<open>send_file\<close> sends for it.
\<close>

definition not_found :: "string \<Rightarrow> json" where
  "not_found name = error_response (''File '' @ quoted name @ '' not found'')"

definition refused_msgs :: "env \<Rightarrow> nat \<Rightarrow> string \<Rightarrow> nat \<Rightarrow> json list" where
  "refused_msgs E csize name bytes_reported =
     [file_info (JStr name) bytes_reported ((bytes_reported + csize - 1) div csize) csize,
      error_response (''Error sending file: '' @ exc_str E OSError)]"

definition entry_msgs :: "env \<Rightarrow> server \<Rightarrow> string \<Rightarrow> json list" where
  "entry_msgs E srv name =
     (case server_directory srv name of
        None \<Rightarrow> [not_found name]
      | Some (Regular content) \<Rightarrow> file_msgs (chunk_size srv) name content
      | Some (Special bytes_reported) \<Rightarrow> refused_msgs E (chunk_size srv) name bytes_reported)"

definition entry_items :: "env \<Rightarrow> server \<Rightarrow> string \<Rightarrow> item list" where
  "entry_items E srv name =
     (case server_directory srv name of
        None \<Rightarrow> [Frame (json_dumps E (not_found name))]
      | Some (Regular content) \<Rightarrow> file_items E (chunk_size srv) name content
      | Some (Special bytes_reported) \<Rightarrow>
          map (\<lambda>m. Frame (json_dumps E m)) (refused_msgs E (chunk_size srv) name bytes_reported))"

definition multi_items :: "env \<Rightarrow> server \<Rightarrow> string list \<Rightarrow> item list" where
  "multi_items E srv names = concat (map (entry_items E srv) names)"

definition multi_msgs :: "env \<Rightarrow> server \<Rightarrow> string list \<Rightarrow> json list" where
  "multi_msgs E srv names = concat (map (entry_msgs E srv) names)"

text \<open>
  The requested names that the server has as regular files, those at whose path it has
  nothing, and the download directory after the files of the former have been stored in it,
  in order.
\<close>

definition present :: "server \<Rightarrow> string \<Rightarrow> bool" where
  "present srv name =
     (case server_directory srv name of Some (Regular content) \<Rightarrow> True | _ \<Rightarrow> False)"

definition missing :: "server \<Rightarrow> string \<Rightarrow> bool" where
  "missing srv name = (server_directory srv name = None)"

definition served_content :: "server \<Rightarrow> string \<Rightarrow> bytes option" where
  "served_content srv name =
     (case server_directory srv name of Some (Regular content) \<Rightarrow> Some content | _ \<Rightarrow> None)"

fun store :: "server \<Rightarrow> string list \<Rightarrow> (string \<rightharpoonup> bytes) \<Rightarrow> (string \<rightharpoonup> bytes)" where
  "store srv [] directory = directory"
| "store srv (name # names) directory =
     store srv names
       (case server_directory srv name of
          Some (Regular content) \<Rightarrow> directory(name \<mapsto> content)
        | _ \<Rightarrow> directory)"

section \<open>A concrete \<^verbatim>\<open>json\<close> module for the examples\<close>

text \<open>
  The closed examples need texts and a parser. \<open>dumps\<close> writes a value the way
  \<^verbatim>\<open>json.dumps\<close> does with its default separators; \<open>loads\<close> reads the texts of JSON
  whose strings are ASCII and whose numbers are integers. On a string with a character
  outside ASCII, a \<^verbatim>\<open>\u\<close> escape or a number with a fraction or an exponent the two are not
  \<^verbatim>\<open>json\<close>'s functions, and no example holds one.
\<close>

function show_nat :: "nat \<Rightarrow> string" where
  "show_nat n = (if n < 10 then [char_of (48 + n)] else show_nat (n div 10) @ [char_of (48 + n mod 10)])"
  by pat_completeness auto
termination
  by (relation "measure id") auto

declare show_nat.simps [simp del]

definition show_int :: "int \<Rightarrow> string" where
  "show_int i = (if i < 0 then CHR ''-'' # show_nat (nat (- i)) else show_nat (nat i))"

definition hex_digit :: "nat \<Rightarrow> char" where
  "hex_digit d = (if d < 10 then char_of (48 + d) else char_of (87 + d))"

definition escape_char :: "char \<Rightarrow> string" where
  "escape_char c =
     (if c = CHR 0x22 then [CHR 0x5C, CHR 0x22]
      else if c = CHR 0x5C then [CHR 0x5C, CHR 0x5C]
      else if c = CHR 0x0A then [CHR 0x5C, CHR ''n'']
      else if c = CHR 0x0D then [CHR 0x5C, CHR ''r'']
      else if c = CHR 0x09 then [CHR 0x5C, CHR ''t'']
      else if c = CHR 0x08 then [CHR 0x5C, CHR ''b'']
      else if c = CHR 0x0C then [CHR 0x5C, CHR ''f'']
      else if (of_char c :: nat) < 0x20 \<or> (of_char c :: nat) = 0x7F then
        [CHR 0x5C, CHR ''u'', CHR ''0'', CHR ''0'', hex_digit (of_char c div 16), hex_digit (of_char c mod 16)]
      else [c])"

definition show_string :: "string \<Rightarrow> string" where
  "show_string text = [CHR 0x22] @ concat (map escape_char text) @ [CHR 0x22]"

fun join :: "string \<Rightarrow> string list \<Rightarrow> string" where
  "join sep [] = []"
| "join sep [x] = x"
| "join sep (x # y # ys) = x @ sep @ join sep (y # ys)"

fun dumps :: "json \<Rightarrow> string" where
  "dumps JNull = ''null''"
| "dumps (JBool b) = (if b then ''true'' else ''false'')"
| "dumps (JInt i) = show_int i"
| "dumps (JStr text) = show_string text"
| "dumps (JList xs) = ''['' @ join '', '' (map dumps xs) @ '']''"
| "dumps (JObj kvs) =
     ''{'' @ join '', '' (map (\<lambda>kv. show_string (fst kv) @ '': '' @ dumps (snd kv)) kvs) @ ''}''"

definition is_ws :: "char \<Rightarrow> bool" where
  "is_ws c = (c = CHR '' '' \<or> c = CHR 0x0A \<or> c = CHR 0x0D \<or> c = CHR 0x09)"

definition skip_ws :: "string \<Rightarrow> string" where
  "skip_ws text = dropWhile is_ws text"

definition is_digit :: "char \<Rightarrow> bool" where
  "is_digit c = (48 \<le> (of_char c :: nat) \<and> (of_char c :: nat) \<le> 57)"

definition unescape :: "char \<Rightarrow> char option" where
  "unescape e =
     (if e = CHR 0x22 \<or> e = CHR 0x5C \<or> e = CHR ''/'' then Some e
      else if e = CHR ''n'' then Some (CHR 0x0A)
      else if e = CHR ''r'' then Some (CHR 0x0D)
      else if e = CHR ''t'' then Some (CHR 0x09)
      else if e = CHR ''b'' then Some (CHR 0x08)
      else if e = CHR ''f'' then Some (CHR 0x0C)
      else None)"

text \<open>The characters of a string, after its opening quote and up to the closing one.\<close>

fun parse_chars :: "string \<Rightarrow> (string \<times> string) option" where
  "parse_chars [] = None"
| "parse_chars (c # cs) =
     (if c = CHR 0x22 then Some ([], cs)
      else if c = CHR 0x5C then
        (case cs of
           [] \<Rightarrow> None
         | e # cs' \<Rightarrow>
             (case unescape e of
                None \<Rightarrow> None
              | Some d \<Rightarrow> map_option (apfst ((#) d)) (parse_chars cs')))
      else if (of_char c :: nat) < 0x20 then None
      else map_option (apfst ((#) c)) (parse_chars cs))"

definition read_nat :: "string \<Rightarrow> nat" where
  "read_nat ds = foldl (\<lambda>acc c. acc * 10 + (of_char c - 48)) 0 ds"

definition parse_int :: "string \<Rightarrow> (json \<times> string) option" where
  "parse_int text =
     (let negative = (take 1 text = ''-'');
          r = (if negative then drop 1 text else text);
          ds = takeWhile is_digit r;
          rest = dropWhile is_digit r
      in if ds = [] \<or> (1 < length ds \<and> take 1 ds = ''0'') then None
         else if take 1 rest = ''.'' \<or> take 1 rest = ''e'' \<or> take 1 rest = ''E'' then None
         else Some (JInt (if negative then - int (read_nat ds) else int (read_nat ds)), rest))"

text \<open>\<^verbatim>\<open>d[key] = v\<close>: a key read twice keeps its place and takes the later value.\<close>

fun dict_set :: "string \<Rightarrow> json \<Rightarrow> (string \<times> json) list \<Rightarrow> (string \<times> json) list" where
  "dict_set key v [] = [(key, v)]"
| "dict_set key v ((k, w) # kvs) = (if k = key then (k, v) # kvs else (k, w) # dict_set key v kvs)"

text \<open>
  The parser proper, with a bound on the number of nested calls; \<open>loads\<close> gives it more
  than a text of its length can use.
\<close>

fun parse_value :: "nat \<Rightarrow> string \<Rightarrow> (json \<times> string) option"
  and parse_elements :: "nat \<Rightarrow> json list \<Rightarrow> string \<Rightarrow> (json \<times> string) option"
  and parse_members :: "nat \<Rightarrow> (string \<times> json) list \<Rightarrow> string \<Rightarrow> (json \<times> string) option"
where
  "parse_value 0 text = None"
| "parse_value (Suc n) text =
     (case skip_ws text of
        [] \<Rightarrow> None
      | c # r \<Rightarrow>
          if c = CHR ''{'' then
            (case skip_ws r of
               [] \<Rightarrow> None
             | d # r' \<Rightarrow> if d = CHR ''}'' then Some (JObj [], r') else parse_members n [] (d # r'))
          else if c = CHR ''['' then
            (case skip_ws r of
               [] \<Rightarrow> None
             | d # r' \<Rightarrow> if d = CHR '']'' then Some (JList [], r') else parse_elements n [] (d # r'))
          else if c = CHR 0x22 then map_option (apfst JStr) (parse_chars r)
          else if take 4 (c # r) = ''true'' then Some (JBool True, drop 4 (c # r))
          else if take 5 (c # r) = ''false'' then Some (JBool False, drop 5 (c # r))
          else if take 4 (c # r) = ''null'' then Some (JNull, drop 4 (c # r))
          else parse_int (c # r))"
| "parse_elements 0 acc text = None"
| "parse_elements (Suc n) acc text =
     (case parse_value n text of
        None \<Rightarrow> None
      | Some (v, r) \<Rightarrow>
          (case skip_ws r of
             [] \<Rightarrow> None
           | c # r' \<Rightarrow>
               if c = CHR '','' then parse_elements n (acc @ [v]) r'
               else if c = CHR '']'' then Some (JList (acc @ [v]), r')
               else None))"
| "parse_members 0 acc text = None"
| "parse_members (Suc n) acc text =
     (case skip_ws text of
        [] \<Rightarrow> None
      | c # r \<Rightarrow>
          if c \<noteq> CHR 0x22 then None
          else
            (case parse_chars r of
               None \<Rightarrow> None
             | Some (key, r1) \<Rightarrow>
                 (case skip_ws r1 of
                    [] \<Rightarrow> None
                  | d # r2 \<Rightarrow>
                      if d \<noteq> CHR '':'' then None
                      else
                        (case parse_value n r2 of
                           None \<Rightarrow> None
                         | Some (v, r3) \<Rightarrow>
                             (case skip_ws r3 of
                                [] \<Rightarrow> None
                              | e # r4 \<Rightarrow>
                                  if e = CHR '','' then parse_members n (dict_set key v acc) r4
                                  else if e = CHR ''}'' then Some (JObj (dict_set key v acc), r4)
                                  else None)))))"

definition loads :: "string \<Rightarrow> json option" where
  "loads text =
     (case parse_value (2 * length text + 2) text of
        None \<Rightarrow> None
      | Some (v, rest) \<Rightarrow> if skip_ws rest = [] then Some v else None)"

text \<open>
  The environment of the examples. \<^verbatim>\<open>str(e)\<close> is one fixed text per kind of exception (for
  OSError the text of the one that the examples raise), and the examples list no directory.
\<close>

definition exc_text :: "py_error \<Rightarrow> string" where
  "exc_text e =
     (case e of
        OverflowError \<Rightarrow> ''int too big to convert''
      | JSONDecodeError \<Rightarrow> ''Expecting value: line 1 column 1 (char 0)''
      | KeyError \<Rightarrow> ''key''
      | TypeError \<Rightarrow> ''expected str, bytes or os.PathLike object, not NoneType''
      | AttributeError \<Rightarrow> ''object has no attribute get''
      | ZeroDivisionError \<Rightarrow> ''integer division or modulo by zero''
      | OSError \<Rightarrow> ''[Errno 21] Is a directory: '' @ quoted ''server_files/.'')"

definition example_env :: env where
  "example_env =
     \<lparr>json_dumps = dumps, json_loads = loads, exc_str = exc_text, dir_entries = (\<lambda>directory. [])\<rparr>"

text \<open>
  A directory without sub-directories that holds the given files, as the server sees it:
  the empty name, \<^verbatim>\<open>.\<close> and \<^verbatim>\<open>..\<close> give the paths of directories. And the names at which a
  client can create files in such a directory.
\<close>

definition flat_directory :: "(string \<rightharpoonup> bytes) \<Rightarrow> (string \<rightharpoonup> node)" where
  "flat_directory files name =
     (if name = [] \<or> name = ''.'' \<or> name = ''..'' then Some (Special 4096)
      else map_option Regular (files name))"

definition plain_name :: "string \<Rightarrow> bool" where
  "plain_name name =
     (name \<noteq> [] \<and> name \<noteq> ''.'' \<and> name \<noteq> ''..'' \<and>
      list_all (\<lambda>ch. ch \<noteq> CHR ''/'' \<and> ch \<noteq> CHR 0x00) name)"

text \<open>
  A server with chunks of four bytes that serves one file of ten bytes, a server as the
  constructor makes it with the same file, and a socket with nothing to read.
\<close>

definition example_server :: server where
  "example_server =
     \<lparr>buffer_size = 4096, chunk_size = 4,
      server_directory = flat_directory [''a.txt'' \<mapsto> ''0123456789'']\<rparr>"

definition default_server :: server where
  "default_server = FileTransferServer (flat_directory [''a.txt'' \<mapsto> ''0123456789''])"

definition idle_socket :: tcp_socket where
  "idle_socket = \<lparr>inbox = [], outbox = [], closed = False\<rparr>"

section \<open>Concrete inputs\<close>

text \<open>
  Four sockets. The first two hold the frame of the message \<^verbatim>\<open>hello\<close>: in one segment, and
  cut after the second byte of its length. The third holds a frame that declares five
  bytes and ends after two, and the last is closed with nothing left to read.
\<close>

definition whole_prefix_socket :: tcp_socket where
  "whole_prefix_socket =
     \<lparr>inbox = [[CHR 0x00, CHR 0x00, CHR 0x00, CHR 0x05] @ ''hello''], outbox = [], closed = False\<rparr>"

definition split_prefix_socket :: tcp_socket where
  "split_prefix_socket =
     \<lparr>inbox = [[CHR 0x00, CHR 0x00], [CHR 0x00, CHR 0x05] @ ''hello''], outbox = [], closed = False\<rparr>"

definition truncated_socket :: tcp_socket where
  "truncated_socket =
     \<lparr>inbox = [[CHR 0x00, CHR 0x00, CHR 0x00, CHR 0x05] @ ''he''], outbox = [], closed = False\<rparr>"

definition closed_socket :: tcp_socket where
  "closed_socket = \<lparr>inbox = [], outbox = [], closed = False\<rparr>"



text \<open>
  Two clients with an empty download directory. The socket of the first delivers what the
  example server sends for \<^verbatim>\<open>a.txt\<close>, the socket of the second the server's answer to a
  request for \<^verbatim>\<open>b.txt\<close>, which the server does not have; one segment for every \<^verbatim>\<open>send\<close>.
\<close>

definition receiving_client :: client where
  "receiving_client =
     FileTransferClient Map.empty plain_name
       \<lparr>inbox = map item_bytes (file_items example_env 4 ''a.txt'' ''0123456789''),
        outbox = [], closed = False\<rparr>"

definition refused_client :: client where
  "refused_client =
     FileTransferClient Map.empty plain_name
       \<lparr>inbox = [item_bytes (Frame (dumps (not_found ''b.txt'')))], outbox = [], closed = False\<rparr>"

text \<open>
  A client whose socket delivers the example server's answer to a request for \<^verbatim>\<open>b.txt\<close>,
  which it does not have, and \<^verbatim>\<open>a.txt\<close>; and a client whose socket delivers a multi-file
  transfer of no file at all that ends with a completion message for five files.
\<close>

definition multi_client :: client where
  "multi_client =
     FileTransferClient Map.empty plain_name
       \<lparr>inbox = map item_bytes
          (Frame (dumps (start_msg 2 (JList [JStr ''b.txt'', JStr ''a.txt''])))
           # multi_items example_env example_server [''b.txt'', ''a.txt'']
           @ [Frame (dumps (multi_completion_msg 2))]),
        outbox = [], closed = False\<rparr>"

definition miscounted_client :: client where
  "miscounted_client =
     FileTransferClient Map.empty plain_name
       \<lparr>inbox = map item_bytes
          [Frame (dumps (start_msg 0 (JList []))), Frame (dumps (multi_completion_msg 5))],
        outbox = [], closed = False\<rparr>"



text \<open>
  A server that holds one file, in a sub-directory, and two clients with an empty download
  directory without sub-directories: the socket of the first delivers what that server
  sends for a request of \<^verbatim>\<open>b.txt\<close> and \<^verbatim>\<open>sub/a.txt\<close>, the socket of the second what the example
  server sends for a request of \<^verbatim>\<open>.\<close> and \<^verbatim>\<open>a.txt\<close>.
\<close>

definition nested_server :: server where
  "nested_server =
     \<lparr>buffer_size = 4096, chunk_size = 4,
      server_directory = (\<lambda>name.
        if name = ''sub/a.txt'' then Some (Regular ''0123456789'')
        else if name = ''sub'' then Some (Special 4096)
        else flat_directory Map.empty name)\<rparr>"

definition nested_multi_client :: client where
  "nested_multi_client =
     FileTransferClient Map.empty plain_name
       \<lparr>inbox = map item_bytes
          (Frame (dumps (start_msg 2 (JList [JStr ''b.txt'', JStr ''sub/a.txt''])))
           # multi_items example_env nested_server [''b.txt'', ''sub/a.txt'']
           @ [Frame (dumps (multi_completion_msg 2))]),
        outbox = [], closed = False\<rparr>"

definition dot_multi_client :: client where
  "dot_multi_client =
     FileTransferClient Map.empty plain_name
       \<lparr>inbox = map item_bytes
          (Frame (dumps (start_msg 2 (JList [JStr ''.'', JStr ''a.txt''])))
           # multi_items example_env example_server [''.'', ''a.txt'']
           @ [Frame (dumps (multi_completion_msg 2))]),
        outbox = [], closed = False\<rparr>"

section \<open>Sockets and frames: basic facts\<close>

lemma int_from_bytes_length_prefix:
  assumes "n < 2 ^ 32"
  shows "int_from_bytes (length_prefix n) = n"
proof -
  have a: "n div 16777216 < 256" using assms by simp
  have "n div 65536 div 256 = n div 16777216" by (simp add: div_mult2_eq[symmetric])
  then have b: "n div 65536 = (n div 16777216) * 256 + (n div 65536) mod 256"
    using div_mult_mod_eq[of "n div 65536" 256] by simp
  have "n div 256 div 256 = n div 65536" by (simp add: div_mult2_eq[symmetric])
  then have c: "n div 256 = (n div 65536) * 256 + (n div 256) mod 256"
    using div_mult_mod_eq[of "n div 256" 256] by simp
  have d: "n = (n div 256) * 256 + n mod 256"
    by simp
  show ?thesis
    unfolding int_from_bytes_def length_prefix_def
    using a b c d by simp
qed

lemma next_seg_empty_iff: "next_seg segs = [] \<longleftrightarrow> concat segs = []"
  by (induction segs) auto

lemma next_seg_prefix: "take (length (next_seg segs)) (concat segs) = next_seg segs"
  by (induction segs) auto

lemma drop_bytes_0 [simp]: "drop_bytes 0 segs = segs"
  by (cases segs) auto

lemma concat_drop_bytes [simp]: "concat (drop_bytes n segs) = drop n (concat segs)"
  by (induction n segs rule: drop_bytes.induct) auto

lemma drop_bytes_add: "drop_bytes a (drop_bytes b segs) = drop_bytes (b + a) segs"
  by (induction b segs arbitrary: a rule: drop_bytes.induct) (auto simp: add.commute)

lemma recv_next:
  "0 < n \<Longrightarrow> next_seg segs \<noteq> [] \<Longrightarrow>
   recv n segs = (take n (next_seg segs), drop_bytes (min n (length (next_seg segs))) segs)"
  by (induction segs) (auto simp: min_def)

lemma recv_exact_full:
  "0 < buf \<Longrightarrow> length data \<le> n \<Longrightarrow> n - length data \<le> length (concat segs) \<Longrightarrow>
   recv_exact buf n data segs =
     (True, data @ take (n - length data) (concat segs), drop_bytes (n - length data) segs)"
proof (induction buf n data segs rule: recv_exact.induct)
  case (1 buf n data segs)
  show ?case
  proof (cases "length data < n")
    case False
    with "1.prems" show ?thesis by (subst recv_exact.simps) simp
  next
    case True
    define k where "k = min (n - length data) buf"
    define m where "m = min k (length (next_seg segs))"
    define chunk where "chunk = take k (next_seg segs)"
    from True "1.prems" have "0 < length (concat segs)" by linarith
    then have "concat segs \<noteq> []" by auto
    then have ne: "next_seg segs \<noteq> []" using next_seg_empty_iff[of segs] by blast
    from True "1.prems" have kpos: "0 < k" by (simp add: k_def)
    from recv_next[OF kpos ne] have r: "recv k segs = (chunk, drop_bytes m segs)"
      by (simp add: chunk_def m_def)
    from kpos ne have cne: "chunk \<noteq> []" by (cases "next_seg segs") (auto simp: chunk_def)
    have len: "length chunk = m" by (simp add: chunk_def m_def)
    have ck: "chunk = take m (concat segs)"
      unfolding chunk_def m_def by (metis min.commute next_seg_prefix take_take)
    have mle: "m \<le> n - length data" by (simp add: m_def k_def)
    have mpos: "0 < m" using cne len by auto
    have p1: "length (data @ chunk) \<le> n" using mle True len by simp
    have p2: "n - length (data @ chunk) \<le> length (concat (drop_bytes m segs))"
      using "1.prems" len mle by simp
    have ih: "recv_exact buf n (data @ chunk) (drop_bytes m segs) =
       (True, (data @ chunk) @ take (n - length (data @ chunk)) (concat (drop_bytes m segs)),
        drop_bytes (n - length (data @ chunk)) (drop_bytes m segs))"
      using "1.IH"[OF True _ cne "1.prems"(1) p1 p2] r by (simp add: k_def)
    have t: "chunk @ take (n - length data - m) (drop m (concat segs)) = take (n - length data) (concat segs)"
      using mle ck by (metis le_add_diff_inverse take_add)
    have d: "drop_bytes (n - length (data @ chunk)) (drop_bytes m segs) = drop_bytes (n - length data) segs"
    proof -
      have "m + (n - (length data + m)) = n - length data" using mle by linarith
      then show ?thesis using len by (simp add: drop_bytes_add)
    qed
    have e: "(data @ chunk) @ take (n - length (data @ chunk)) (concat (drop_bytes m segs))
        = data @ take (n - length data) (concat segs)"
      using t len by simp
    have step: "recv_exact buf n data segs = recv_exact buf n (data @ chunk) (drop_bytes m segs)"
      using True r cne by (subst recv_exact.simps) (simp add: k_def)
    show ?thesis by (simp only: step ih d e)
  qed
qed

lemma length_length_prefix [simp]: "length (length_prefix n) = 4"
  by (simp add: length_prefix_def)

lemma receive_message_frame:
  assumes buf: "0 < buf" and len: "length msg < 2 ^ 32"
    and whole: "4 \<le> length (next_seg (inbox s))"
    and bytes: "take (4 + length msg) (concat (inbox s)) = length_prefix (length msg) @ msg"
  shows "receive_message buf s =
     (decode_utf8 msg, s\<lparr>inbox := drop_bytes (4 + length msg) (inbox s)\<rparr>)"
proof -
  let ?segs = "inbox s"
  from whole have ne: "next_seg ?segs \<noteq> []" by auto
  have l: "4 + length msg \<le> length (concat ?segs)"
  proof -
    have "length (take (4 + length msg) (concat ?segs)) = 4 + length msg"
      by (simp only: bytes length_append length_length_prefix)
    then show ?thesis by simp
  qed
  have "take 4 (next_seg ?segs) = take 4 (concat ?segs)"
    using whole by (metis min.absorb1 next_seg_prefix take_take)
  also have "\<dots> = take 4 (take (4 + length msg) (concat ?segs))" by simp
  also have "\<dots> = length_prefix (length msg)" by (simp only: bytes) simp
  finally have p: "take 4 (next_seg ?segs) = length_prefix (length msg)" .
  have r: "recv 4 ?segs = (length_prefix (length msg), drop_bytes 4 ?segs)"
    using recv_next[of 4 ?segs] ne whole p by (simp add: min_def)
  have "take (length msg) (drop 4 (concat ?segs)) = drop 4 (take (4 + length msg) (concat ?segs))"
    by (simp add: drop_take)
  also have "\<dots> = msg" by (simp only: bytes) simp
  finally have m: "take (length msg) (concat (drop_bytes 4 ?segs)) = msg" by simp
  have e: "recv_exact buf (length msg) [] (drop_bytes 4 ?segs) =
      (True, msg, drop_bytes (4 + length msg) ?segs)"
    using recv_exact_full[of buf "[]" "length msg" "drop_bytes 4 ?segs"] buf l m
    by (simp add: drop_bytes_add)
  have ne2: "length_prefix (length msg) \<noteq> []" by (simp add: length_prefix_def)
  show ?thesis
    by (simp add: receive_message_def r e ne2 int_from_bytes_length_prefix[OF len])
qed

lemma recv_exact_short:
  "length data + length (concat segs) < n \<Longrightarrow> fst (recv_exact buf n data segs) = False"
proof (induction buf n data segs rule: recv_exact.induct)
  case (1 buf n data segs)
  obtain chunk segs' where r: "recv (min (n - length data) buf) segs = (chunk, segs')"
    by (cases "recv (min (n - length data) buf) segs")
  from recv_concat[OF r] have "length chunk + length (concat segs') = length (concat segs)"
    by (metis length_append)
  with 1 r show ?case
    by (subst recv_exact.simps) auto
qed

section \<open>The framed channel: the length prefix and truncated frames\<close>

text \<open>
  Claim C5. The receive operation is claimed to read exactly four bytes of length prefix,
  looping over partial reads. \<^verbatim>\<open>receive_message\<close> calls \<^verbatim>\<open>recv(4)\<close> once and decodes whatever
  that call returned. When the frame of \<^verbatim>\<open>hello\<close> arrives in one segment the message is
  received; when the segment boundary falls after the second byte of the prefix, the two bytes
  read are decoded as the length 0, the result is the empty string, and the rest of the
  prefix and the message stay in the socket.
\<close>

theorem receive_message_split_prefix:
  "concat (inbox split_prefix_socket) = item_bytes (Frame ''hello'') \<and>
   concat (inbox whole_prefix_socket) = item_bytes (Frame ''hello'') \<and>
   fst (receive_message 4096 whole_prefix_socket) = Some ''hello'' \<and>
   receive_message 4096 split_prefix_socket =
     (Some [], split_prefix_socket\<lparr>inbox := [[CHR 0x00, CHR 0x05] @ ''hello'']\<rparr>)"
proof -
  have "concat (inbox split_prefix_socket) = item_bytes (Frame ''hello'')"
    by (simp add: split_prefix_socket_def length_prefix_def char_of_def bit_iff_odd)
  moreover have "concat (inbox whole_prefix_socket) = item_bytes (Frame ''hello'')"
    by (simp add: whole_prefix_socket_def length_prefix_def char_of_def bit_iff_odd)
  moreover have "fst (receive_message 4096 whole_prefix_socket) = Some ''hello''"
    by (simp add: whole_prefix_socket_def receive_message_def recv_exact.simps
        int_from_bytes_def decode_utf8_def utf8_valid_def)
  moreover have "receive_message 4096 split_prefix_socket =
     (Some [], split_prefix_socket\<lparr>inbox := [[CHR 0x00, CHR 0x05] @ ''hello'']\<rparr>)"
    by (simp add: split_prefix_socket_def receive_message_def recv_exact.simps
        int_from_bytes_def decode_utf8_def utf8_valid_def)
  ultimately show ?thesis by simp
qed

text \<open>
  Claim C6, as stated: a close after the length prefix and before the end of the payload is
  reported in a way the caller can tell from a clean end of stream at a frame boundary. It
  is not: on a frame cut short and on a closed socket \<^verbatim>\<open>receive_message\<close> returns the same
  \<^verbatim>\<open>None\<close> and leaves the same socket.
\<close>

theorem truncated_same_as_closed:
  "receive_message 4096 truncated_socket = (None, closed_socket) \<and>
   receive_message 4096 closed_socket = (None, closed_socket)"
  by (simp add: truncated_socket_def closed_socket_def receive_message_def
      recv_exact.simps int_from_bytes_def)

text \<open>
  Claim C6, amended: when the peer closes after the length prefix and before the declared
  number of payload bytes has arrived, \<^verbatim>\<open>receive_message\<close> returns \<^verbatim>\<open>None\<close>, which is also
  what it returns on a clean end of stream.
\<close>

theorem receive_message_truncated:
  assumes "recv 4 (inbox s) = (length_data, segs1)" and "length_data \<noteq> []"
    and "length (concat segs1) < int_from_bytes length_data"
  shows "fst (receive_message buf s) = None \<and>
         fst (receive_message buf (s\<lparr>inbox := []\<rparr>)) = None"
proof -
  from assms(3) have "fst (recv_exact buf (int_from_bytes length_data) [] segs1) = False"
    using recv_exact_short[of "[]" segs1 "int_from_bytes length_data" buf] by simp
  with assms(1,2) have "fst (receive_message buf s) = None"
    by (auto simp: receive_message_def split: prod.splits)
  moreover have "fst (receive_message buf (s\<lparr>inbox := []\<rparr>)) = None"
    by (simp add: receive_message_def)
  ultimately show ?thesis by simp
qed

theorem receive_message_truncated_witness:
  "recv 4 (inbox truncated_socket) = ([CHR 0x00, CHR 0x00, CHR 0x00, CHR 0x05], [''he'']) \<and>
   length (concat [''he'']) < int_from_bytes [CHR 0x00, CHR 0x00, CHR 0x00, CHR 0x05] \<and>
   fst (receive_message 4096 truncated_socket) = None \<and>
   fst (receive_message 4096 (truncated_socket\<lparr>inbox := []\<rparr>)) = None"
proof -
  have r: "recv 4 (inbox truncated_socket) = ([CHR 0x00, CHR 0x00, CHR 0x00, CHR 0x05], [''he''])"
    by (simp add: truncated_socket_def)
  have l: "length (concat [''he'']) < int_from_bytes [CHR 0x00, CHR 0x00, CHR 0x00, CHR 0x05]"
    by (simp add: int_from_bytes_def)
  from receive_message_truncated[OF r _ l, of 4096] r l show ?thesis by simp
qed

section \<open>The size arithmetic of the server\<close>

lemma num_chunks_covers:
  assumes "0 < (cs::nat)"
  shows "fs \<le> ((fs + cs - 1) div cs) * cs"
proof -
  have "fs + cs - 1 < ((fs + cs - 1) div cs) * cs + cs"
    using dividend_less_div_times[OF assms, of "fs + cs - 1"] by (simp add: mult.commute)
  then show ?thesis using assms by linarith
qed

lemma num_chunks_tight:
  assumes "0 < (cs::nat)" "0 < fs"
  shows "((fs + cs - 1) div cs - 1) * cs < fs"
proof -
  have le: "((fs + cs - 1) div cs) * cs \<le> fs + cs - 1" by simp
  have "1 \<le> (fs + cs - 1) div cs"
    using assms by (simp add: Suc_leI div_greater_zero_iff)
  then obtain m where m: "(fs + cs - 1) div cs = Suc m"
    by (cases "(fs + cs - 1) div cs") auto
  from le have "m * cs + cs \<le> fs + cs - 1" unfolding m by simp
  then have "m * cs < fs" using assms by linarith
  then show ?thesis unfolding m by simp
qed

lemma num_chunks_zero: "(0 + cs - 1) div cs = (0::nat)"
  by (cases cs) auto

lemma num_chunks_eq_ceiling:
  assumes "0 < (cs::nat)"
  shows "(fs + cs - 1) div cs = nat \<lceil>real fs / real cs\<rceil>"
proof (cases "fs = 0")
  case True
  then show ?thesis using num_chunks_zero[of cs] by simp
next
  case False
  let ?n = "(fs + cs - 1) div cs"
  have up: "real fs \<le> real ?n * real cs"
    using num_chunks_covers[OF assms, of fs] by (metis of_nat_le_iff of_nat_mult)
  have lo: "real (?n - 1) * real cs < real fs"
    using num_chunks_tight[OF assms, of fs] False by (metis neq0_conv of_nat_less_iff of_nat_mult)
  have pos: "1 \<le> ?n" using assms False by (simp add: Suc_leI div_greater_zero_iff)
  have "\<lceil>real fs / real cs\<rceil> = int ?n"
  proof (rule ceiling_unique)
    show "real_of_int (int ?n) - 1 < real fs / real cs"
      using lo pos assms by (simp add: pos_less_divide_eq of_nat_diff)
    show "real fs / real cs \<le> real_of_int (int ?n)"
      using up assms by (simp add: pos_divide_le_eq)
  qed
  then show ?thesis by simp
qed

section \<open>What the server sends\<close>

lemma send_json_sendable:
  "length (json_dumps E m) < 2 ^ 32 \<Longrightarrow>
   send_json E s m = Inr (s\<lparr>outbox := outbox s @ [item_bytes (Frame (json_dumps E m))]\<rparr>)"
  by (simp add: send_json_def send_message_def to_bytes4_def send_def)

lemma send_chunks_trace:
  "list_all sendable (chunk_items E cs n ks f) \<Longrightarrow>
   send_chunks E cs n ks f s =
     Inr (s\<lparr>outbox := outbox s @ map item_bytes (chunk_items E cs n ks f)\<rparr>)"
proof (induction ks arbitrary: f s)
  case Nil
  show ?case by simp
next
  case (Cons k ks)
  from Cons.prems have h: "length (json_dumps E (chunk_info (k + 1) n (length (take cs f)))) < 2 ^ 32"
    and rest: "list_all sendable (chunk_items E cs n ks (drop cs f))" by simp_all
  show ?case
    using h Cons.IH[OF rest] by (simp add: send_json_sendable Let_def send_def)
qed

lemma send_file_try_trace:
  assumes "server_directory srv name = Some (Regular content)" and "0 < chunk_size srv"
    and "list_all sendable (file_items E (chunk_size srv) name content)"
  shows "send_file_try E srv s (JStr name) =
     Inr (s\<lparr>outbox := outbox s @ map item_bytes (file_items E (chunk_size srv) name content)\<rparr>)"
proof -
  let ?cs = "chunk_size srv"
  let ?n = "(length content + ?cs - 1) div ?cs"
  from assms(3) have a: "length (json_dumps E (file_info (JStr name) (length content) ?n ?cs)) < 2 ^ 32"
    and b: "list_all sendable (chunk_items E ?cs ?n [0..<?n] content)"
    and c: "length (json_dumps E (completion_msg (JStr name))) < 2 ^ 32"
    by (simp_all add: file_items_def Let_def)
  show ?thesis
    using assms(1,2) a send_chunks_trace[OF b] c
    by (simp add: send_file_try_def num_chunks_of_def Let_def send_json_sendable file_items_def)
qed

lemma send_file_trace:
  assumes "server_directory srv name = Some (Regular content)" and "0 < chunk_size srv"
    and "list_all sendable (file_items E (chunk_size srv) name content)"
  shows "send_file E srv s (JStr name) =
     Inr (s\<lparr>outbox := outbox s @ map item_bytes (file_items E (chunk_size srv) name content)\<rparr>)"
  by (simp add: send_file_def send_file_try_trace[OF assms])

lemma outbox_send_json:
  "\<exists>rest. outbox (result_sock (send_json E s m)) = outbox s @ rest"
  by (simp add: send_json_def send_message_def send_def result_sock_def split: sum.splits)

lemma outbox_send_chunks:
  "\<exists>rest. outbox (result_sock (send_chunks E cs n ks f s)) = outbox s @ rest"
proof (induction ks arbitrary: f s)
  case Nil
  show ?case by simp
next
  case (Cons k ks)
  let ?h = "chunk_info (k + 1) n (length (take cs f))"
  show ?case
  proof (cases "send_json E s ?h")
    case (Inl err)
    then show ?thesis by (cases err) (simp add: Let_def send_json_def split: sum.splits)
  next
    case (Inr s1)
    from outbox_send_json[of E s ?h] Inr obtain r1 where r1: "outbox s1 = outbox s @ r1" by auto
    from Cons.IH[of "drop cs f" "send (take cs f) s1"] obtain r2 where
      "outbox (result_sock (send_chunks E cs n ks (drop cs f) (send (take cs f) s1))) =
         outbox (send (take cs f) s1) @ r2" by blast
    with Inr r1 show ?thesis by (simp add: Let_def send_def)
  qed
qed

text \<open>
  For a path that exists, whatever is there, the first thing that \<^verbatim>\<open>send_file\<close> sends is the
  frame of a file_info with the size of \<^verbatim>\<open>getsize\<close> and the number of chunks computed from it.
\<close>

lemma send_file_info_first:
  assumes found: "server_directory srv name = Some found" and cs: "0 < chunk_size srv"
    and len: "length (json_dumps E (file_info (JStr name) (node_size found)
                 ((node_size found + chunk_size srv - 1) div chunk_size srv) (chunk_size srv))) < 2 ^ 32"
  shows "\<exists>rest. outbox (result_sock (send_file E srv s (JStr name))) =
     outbox s @ item_bytes (Frame (json_dumps E (file_info (JStr name) (node_size found)
                 ((node_size found + chunk_size srv - 1) div chunk_size srv) (chunk_size srv)))) # rest"
proof -
  let ?n = "(node_size found + chunk_size srv - 1) div chunk_size srv"
  let ?info = "file_info (JStr name) (node_size found) ?n (chunk_size srv)"
  define s1 where "s1 = s\<lparr>outbox := outbox s @ [item_bytes (Frame (json_dumps E ?info))]\<rparr>"
  have sent: "send_json E s ?info = Inr s1"
    using send_json_sendable[OF len, of s] by (simp add: s1_def)
  have o1: "outbox s1 = outbox s @ [item_bytes (Frame (json_dumps E ?info))]" by (simp add: s1_def)
  have grow: "\<exists>rest. outbox (result_sock (send_file_try E srv s (JStr name))) = outbox s1 @ rest"
  proof (cases found)
    case (Special bytes_reported)
    with found cs sent show ?thesis
      by (simp add: send_file_try_def num_chunks_of_def Let_def result_sock_def)
  next
    case (Regular content)
    let ?r = "send_chunks E (chunk_size srv) ?n [0..<?n] content s1"
    from outbox_send_chunks[of E "chunk_size srv" ?n "[0..<?n]" content s1] obtain r2 where
      r2: "outbox (result_sock ?r) = outbox s1 @ r2" by blast
    show ?thesis
    proof (cases ?r)
      case (Inl err)
      with found cs sent Regular r2 show ?thesis
        by (cases err) (simp add: send_file_try_def num_chunks_of_def Let_def result_sock_def)
    next
      case (Inr s2)
      from outbox_send_json[of E s2 "completion_msg (JStr name)"] obtain r3 where
        "outbox (result_sock (send_json E s2 (completion_msg (JStr name)))) = outbox s2 @ r3" by blast
      with found cs sent Regular r2 Inr show ?thesis
        by (simp add: send_file_try_def num_chunks_of_def Let_def result_sock_def)
    qed
  qed
  then obtain r where r: "outbox (result_sock (send_file_try E srv s (JStr name))) = outbox s1 @ r"
    by blast
  show ?thesis
  proof (cases "send_file_try E srv s (JStr name)")
    case (Inr s')
    with r o1 show ?thesis by (simp add: send_file_def result_sock_def)
  next
    case (Inl err)
    obtain e s' where err: "err = (e, s')" by (cases err)
    from outbox_send_json[of E s' "error_response (''Error sending file: '' @ exc_str E e)"]
    obtain r' where "outbox (result_sock (send_json E s'
        (error_response (''Error sending file: '' @ exc_str E e)))) = outbox s' @ r'" by blast
    with Inl err r o1 show ?thesis by (simp add: send_file_def result_sock_def)
  qed
qed

lemma chunk_items_upt:
  "chunk_items E cs n [a..<b] f =
     concat (map (\<lambda>k. [Frame (json_dumps E (chunk_info (k + 1) n
                                 (length (take cs (drop ((k - a) * cs) f))))),
                        Raw (take cs (drop ((k - a) * cs) f))]) [a..<b])"
proof (induction "b - a" arbitrary: a f)
  case 0
  then show ?case by simp
next
  case (Suc d)
  define G where "G = (\<lambda>a f k. [Frame (json_dumps E (chunk_info (k + 1) n
                                 (length (take cs (drop ((k - a) * cs) f))))),
                        Raw (take cs (drop ((k - a) * cs) f))])"
  from Suc have ab: "a < b" and d: "d = b - Suc a" by simp_all
  have eq: "map (G (Suc a) (drop cs f)) [Suc a..<b] = map (G a f) [Suc a..<b]"
  proof (rule map_cong[OF refl])
    fix k assume "k \<in> set [Suc a..<b]"
    then obtain j where "k = Suc a + j" by (metis atLeastLessThan_iff le_Suc_ex set_upt)
    then have "(k - Suc a) * cs + cs = (k - a) * cs" by simp
    then have "drop ((k - Suc a) * cs) (drop cs f) = drop ((k - a) * cs) f"
      by (simp add: add.commute)
    then show "G (Suc a) (drop cs f) k = G a f k" by (simp only: G_def)
  qed
  have ih: "chunk_items E cs n [Suc a..<b] (drop cs f) = concat (map (G (Suc a) (drop cs f)) [Suc a..<b])"
    using Suc.hyps(1)[OF d, of "drop cs f"] by (simp only: G_def)
  have hd: "[Frame (json_dumps E (chunk_info (a + 1) n (length (take cs f)))), Raw (take cs f)] = G a f a"
    by (simp add: G_def)
  have "chunk_items E cs n [a..<b] f = chunk_items E cs n (a # [Suc a..<b]) f"
    using ab by (simp only: upt_conv_Cons)
  also have "\<dots> = G a f a @ chunk_items E cs n [Suc a..<b] (drop cs f)"
    by (simp only: chunk_items.simps hd[symmetric] append_Cons append_Nil)
  also have "\<dots> = G a f a @ concat (map (G a f) [Suc a..<b])"
    by (simp only: ih eq)
  also have "\<dots> = concat (map (G a f) (a # [Suc a..<b]))" by simp
  also have "\<dots> = concat (map (G a f) [a..<b])" using ab by (simp only: upt_conv_Cons)
  finally show ?case by (simp only: G_def)
qed

lemma chunk_length:
  assumes "0 < (cs::nat)" and "k < (length content + cs - 1) div cs"
  shows "length (take cs (drop (k * cs) content)) =
     (if k + 1 < (length content + cs - 1) div cs then cs
      else length content - ((length content + cs - 1) div cs - 1) * cs)"
proof -
  let ?fs = "length content"
  let ?n = "(?fs + cs - 1) div cs"
  from assms(2) have fs_pos: "0 < ?fs" using num_chunks_zero[of cs] by (cases "?fs = 0") auto
  have len: "length (take cs (drop (k * cs) content)) = min cs (?fs - k * cs)" by simp
  show ?thesis
  proof (cases "k + 1 < ?n")
    case True
    then have "k + 1 \<le> ?n - 1" by simp
    then have "(k + 1) * cs \<le> (?n - 1) * cs" by (rule mult_le_mono1)
    with num_chunks_tight[OF assms(1) fs_pos] have "(k + 1) * cs < ?fs" by linarith
    then have "cs \<le> ?fs - k * cs" by simp
    with True len show ?thesis by simp
  next
    case False
    with assms(2) have k: "k = ?n - 1" by linarith
    from assms(2) k have "?n = Suc k" by simp
    with num_chunks_covers[OF assms(1), of ?fs]
    have "?fs \<le> k * cs + cs" by simp
    then have "?fs - k * cs \<le> cs" by simp
    with False len k show ?thesis by simp
  qed
qed

lemma declared_sizes_sum:
  assumes "0 < (cs::nat)"
  shows "(\<Sum>k<(fs + cs - 1) div cs.
            if k + 1 < (fs + cs - 1) div cs then cs else fs - ((fs + cs - 1) div cs - 1) * cs) = fs"
proof (cases "(fs + cs - 1) div cs")
  case 0
  with num_chunks_covers[OF assms, of fs] show ?thesis by simp
next
  case (Suc m)
  have fs_pos: "0 < fs" using Suc num_chunks_zero[of cs] by (cases "fs = 0") auto
  from num_chunks_tight[OF assms fs_pos] Suc have "m * cs < fs" by simp
  then show ?thesis unfolding Suc by simp
qed

section \<open>Evaluating the concrete \<^verbatim>\<open>json\<close> module\<close>

lemma parse_value_fuel:
  "parse_value n text =
     (if n = 0 then None
      else
     (case skip_ws text of
        [] \<Rightarrow> None
      | c # r \<Rightarrow>
          if c = CHR ''{'' then
            (case skip_ws r of
               [] \<Rightarrow> None
             | d # r' \<Rightarrow> if d = CHR ''}'' then Some (JObj [], r') else parse_members (n - 1) [] (d # r'))
          else if c = CHR ''['' then
            (case skip_ws r of
               [] \<Rightarrow> None
             | d # r' \<Rightarrow> if d = CHR '']'' then Some (JList [], r') else parse_elements (n - 1) [] (d # r'))
          else if c = CHR 0x22 then map_option (apfst JStr) (parse_chars r)
          else if take 4 (c # r) = ''true'' then Some (JBool True, drop 4 (c # r))
          else if take 5 (c # r) = ''false'' then Some (JBool False, drop 5 (c # r))
          else if take 4 (c # r) = ''null'' then Some (JNull, drop 4 (c # r))
          else parse_int (c # r)))"
  by (cases n) (simp_all cong: list.case_cong option.case_cong if_cong)

lemma parse_elements_fuel:
  "parse_elements n acc text =
     (if n = 0 then None
      else
     (case parse_value (n - 1) text of
        None \<Rightarrow> None
      | Some (v, r) \<Rightarrow>
          (case skip_ws r of
             [] \<Rightarrow> None
           | c # r' \<Rightarrow>
               if c = CHR '','' then parse_elements (n - 1) (acc @ [v]) r'
               else if c = CHR '']'' then Some (JList (acc @ [v]), r')
               else None)))"
  by (cases n) (simp_all cong: list.case_cong option.case_cong if_cong)

lemma parse_members_fuel:
  "parse_members n acc text =
     (if n = 0 then None
      else
     (case skip_ws text of
        [] \<Rightarrow> None
      | c # r \<Rightarrow>
          if c \<noteq> CHR 0x22 then None
          else
            (case parse_chars r of
               None \<Rightarrow> None
             | Some (key, r1) \<Rightarrow>
                 (case skip_ws r1 of
                    [] \<Rightarrow> None
                  | d # r2 \<Rightarrow>
                      if d \<noteq> CHR '':'' then None
                      else
                        (case parse_value (n - 1) r2 of
                           None \<Rightarrow> None
                         | Some (v, r3) \<Rightarrow>
                             (case skip_ws r3 of
                                [] \<Rightarrow> None
                              | e # r4 \<Rightarrow>
                                  if e = CHR '','' then parse_members (n - 1) (dict_set key v acc) r4
                                  else if e = CHR ''}'' then Some (JObj (dict_set key v acc), r4)
                                  else None))))))"
  by (cases n) (simp_all cong: list.case_cong option.case_cong if_cong)

lemmas codec_eval = loads_def parse_value_fuel parse_elements_fuel parse_members_fuel
  parse_int_def read_nat_def skip_ws_def is_ws_def is_digit_def unescape_def
  show_int_def show_nat.simps show_string_def escape_char_def hex_digit_def
  char_of_def bit_iff_odd

text \<open>
  Claim C2. Let the server be as the constructor makes it, with chunks of 1,048,576 bytes,
  and let something exist at the path of the requested name, of any size \<open>file_size\<close>. Then
  the first thing that \<^verbatim>\<open>send_file\<close> sends is the frame of the file_info whose \<^verbatim>\<open>num_chunks\<close>
  is the ceiling of \<open>file_size / 1048576\<close>; that number is what the field \<^verbatim>\<open>num_chunks\<close> of
  the message holds, and it is 0 exactly for the size 0.
\<close>

theorem num_chunks_is_ceiling:
  fixes E :: env and directory :: "string \<rightharpoonup> node" and s :: tcp_socket and name :: string
    and found :: node
  defines "file_size \<equiv> node_size found"
  defines "info \<equiv> file_info (JStr name) file_size (nat \<lceil>real file_size / 1048576\<rceil>) 1048576"
  assumes found: "directory name = Some found"
    and sendable: "length (json_dumps E info) < 2 ^ 32"
  shows "(\<exists>rest. outbox (result_sock (send_file E (FileTransferServer directory) s (JStr name))) =
            outbox s @ item_bytes (Frame (json_dumps E info)) # rest) \<and>
         py_item info ''num_chunks'' = Inr (JInt \<lceil>real file_size / 1048576\<rceil>) \<and>
         (py_item info ''num_chunks'' = Inr (JInt 0) \<longleftrightarrow> file_size = 0)"
proof -
  let ?srv = "FileTransferServer directory"
  have cs: "chunk_size ?srv = 1048576" and dir: "server_directory ?srv name = Some found"
    using found by (simp_all add: FileTransferServer_def)
  have n: "(file_size + 1048576 - 1) div 1048576 = nat \<lceil>real file_size / 1048576\<rceil>"
    using num_chunks_eq_ceiling[of 1048576 file_size] by simp
  have pos: "0 < chunk_size ?srv" by (simp add: cs)
  have len: "length (json_dumps E (file_info (JStr name) (node_size found)
                 ((node_size found + chunk_size ?srv - 1) div chunk_size ?srv) (chunk_size ?srv))) < 2 ^ 32"
    using sendable n by (simp add: cs info_def file_size_def)
  from send_file_info_first[OF dir pos len, of s]
  have first: "\<exists>rest. outbox (result_sock (send_file E ?srv s (JStr name))) =
            outbox s @ item_bytes (Frame (json_dumps E info)) # rest"
    using n by (simp add: cs info_def file_size_def)
  have nonneg: "0 \<le> \<lceil>real file_size / 1048576\<rceil>" by simp
  have field: "py_item info ''num_chunks'' = Inr (JInt \<lceil>real file_size / 1048576\<rceil>)"
    using nonneg by (simp add: info_def file_info_def)
  have "\<lceil>real file_size / 1048576\<rceil> = 0 \<longleftrightarrow> file_size = 0"
  proof
    assume z: "\<lceil>real file_size / 1048576\<rceil> = 0"
    have "real file_size / 1048576 \<le> real_of_int \<lceil>real file_size / 1048576\<rceil>" by (rule le_of_int_ceiling)
    with z have "real file_size / 1048576 \<le> 0" by simp
    then show "file_size = 0" by simp
  next
    assume "file_size = 0"
    then show "\<lceil>real file_size / 1048576\<rceil> = 0" by simp
  qed
  with field have zero: "py_item info ''num_chunks'' = Inr (JInt 0) \<longleftrightarrow> file_size = 0" by simp
  from first field zero show ?thesis by blast
qed

lemma default_found:
  "flat_directory [''a.txt'' \<mapsto> ''0123456789''] ''a.txt'' = Some (Regular ''0123456789'')"
  by (simp add: flat_directory_def)

lemma small_ceiling: "\<lceil>real (10::nat) / 1048576\<rceil> = 1"
  by (simp add: ceiling_eq_iff)

theorem num_chunks_is_ceiling_witness:
  "flat_directory [''a.txt'' \<mapsto> ''0123456789''] ''a.txt'' = Some (Regular ''0123456789'') \<and>
   length (json_dumps example_env (file_info (JStr ''a.txt'') 10 1 1048576)) < 2 ^ 32 \<and>
   (\<exists>rest. outbox (result_sock (send_file example_env default_server idle_socket (JStr ''a.txt''))) =
      item_bytes (Frame (dumps (file_info (JStr ''a.txt'') 10 1 1048576))) # rest) \<and>
   py_item (file_info (JStr ''a.txt'') 10 1 1048576) ''num_chunks'' = Inr (JInt 1)"
proof -
  have len: "length (json_dumps example_env (file_info (JStr ''a.txt'')
       (node_size (Regular ''0123456789''))
       (nat \<lceil>real (node_size (Regular ''0123456789'')) / 1048576\<rceil>) 1048576)) < 2 ^ 32"
    by (simp add: small_ceiling example_env_def file_info_def codec_eval)
  from num_chunks_is_ceiling[where directory = "flat_directory [''a.txt'' \<mapsto> ''0123456789'']"
      and name = "''a.txt''" and found = "Regular ''0123456789''" and E = example_env
      and s = idle_socket, OF default_found len]
  have "(\<exists>rest. outbox (result_sock (send_file example_env default_server idle_socket (JStr ''a.txt''))) =
      item_bytes (Frame (dumps (file_info (JStr ''a.txt'') 10 1 1048576))) # rest)"
    and "py_item (file_info (JStr ''a.txt'') 10 1 1048576) ''num_chunks'' = Inr (JInt 1)"
    by (simp_all add: small_ceiling default_server_def idle_socket_def example_env_def file_info_def)
  moreover have "length (json_dumps example_env (file_info (JStr ''a.txt'') 10 1 1048576)) < 2 ^ 32"
    by (simp add: example_env_def file_info_def codec_eval)
  ultimately show ?thesis using default_found by simp
qed

text \<open>
  Claim C3. For a served file the server sends the file_info, then for every chunk number
  a header and the chunk's bytes, then the completion message. The size that the header of
  chunk \<open>k + 1\<close> declares, which is what its field \<^verbatim>\<open>chunk_size\<close> holds, is the chunk size,
  except in the last header, where it is \<open>file_size - (num_chunks - 1) * chunk_size\<close>; it is
  the number of raw bytes that follow the header, and the declared sizes add up to the file
  size.
\<close>

theorem chunk_headers_declare_sizes:
  fixes E :: env and srv :: server and s :: tcp_socket and name :: string and content :: bytes
  defines "cs \<equiv> chunk_size srv" and "fs \<equiv> length content"
  defines "n \<equiv> (fs + cs - 1) div cs"
  defines "declared \<equiv> \<lambda>k. if k + 1 < n then cs else fs - (n - 1) * cs"
  assumes served: "server_directory srv name = Some (Regular content)" and cs: "0 < chunk_size srv"
    and sendable: "list_all sendable (file_items E (chunk_size srv) name content)"
  shows "send_file E srv s (JStr name) =
      Inr (s\<lparr>outbox := outbox s @ map item_bytes
        (Frame (json_dumps E (file_info (JStr name) fs n cs))
         # concat (map (\<lambda>k. [Frame (json_dumps E (chunk_info (k + 1) n (declared k))),
                                Raw (take cs (drop (k * cs) content))]) [0..<n])
         @ [Frame (json_dumps E (completion_msg (JStr name)))])\<rparr>) \<and>
    (\<forall>k<n. py_item (chunk_info (k + 1) n (declared k)) ''chunk_size'' = Inr (JInt (int (declared k))) \<and>
           length (take cs (drop (k * cs) content)) = declared k) \<and>
    (\<Sum>k<n. declared k) = fs"
proof -
  have cpos: "0 < cs" using cs by (simp add: cs_def)
  have sizes: "\<forall>k<n. length (take cs (drop (k * cs) content)) = declared k"
    using chunk_length[OF cpos, of _ content] by (simp only: declared_def n_def fs_def) blast
  have "map (\<lambda>k. [Frame (json_dumps E (chunk_info (k + 1) n
                                 (length (take cs (drop ((k - 0) * cs) content))))),
                        Raw (take cs (drop ((k - 0) * cs) content))]) [0..<n]
      = map (\<lambda>k. [Frame (json_dumps E (chunk_info (k + 1) n (declared k))),
                                Raw (take cs (drop (k * cs) content))]) [0..<n]"
    by (rule map_cong[OF refl]) (use sizes in simp)
  then have items: "chunk_items E cs n [0..<n] content =
      concat (map (\<lambda>k. [Frame (json_dumps E (chunk_info (k + 1) n (declared k))),
                                Raw (take cs (drop (k * cs) content))]) [0..<n])"
    by (simp only: chunk_items_upt)
  have "file_items E cs name content =
        Frame (json_dumps E (file_info (JStr name) fs n cs))
         # concat (map (\<lambda>k. [Frame (json_dumps E (chunk_info (k + 1) n (declared k))),
                                Raw (take cs (drop (k * cs) content))]) [0..<n])
         @ [Frame (json_dumps E (completion_msg (JStr name)))]"
    unfolding file_items_def Let_def fs_def[symmetric] n_def[symmetric] items by (rule refl)
  with send_file_trace[OF served cs sendable, of s]
  have sent: "send_file E srv s (JStr name) =
      Inr (s\<lparr>outbox := outbox s @ map item_bytes
        (Frame (json_dumps E (file_info (JStr name) fs n cs))
         # concat (map (\<lambda>k. [Frame (json_dumps E (chunk_info (k + 1) n (declared k))),
                                Raw (take cs (drop (k * cs) content))]) [0..<n])
         @ [Frame (json_dumps E (completion_msg (JStr name)))])\<rparr>)"
    by (simp only: cs_def)
  have total: "(\<Sum>k<n. declared k) = fs"
    using declared_sizes_sum[OF cpos, of fs] by (simp only: declared_def n_def)
  have fields: "\<And>k. py_item (chunk_info (k + 1) n (declared k)) ''chunk_size'' =
      Inr (JInt (int (declared k)))"
    by (simp add: chunk_info_def)
  from sent sizes total fields show ?thesis by blast
qed

lemma example_file_items:
  "file_items example_env 4 ''a.txt'' ''0123456789'' =
     [Frame (dumps (file_info (JStr ''a.txt'') 10 3 4)),
      Frame (dumps (chunk_info 1 3 4)), Raw ''0123'',
      Frame (dumps (chunk_info 2 3 4)), Raw ''4567'',
      Frame (dumps (chunk_info 3 3 2)), Raw ''89'',
      Frame (dumps (completion_msg (JStr ''a.txt'')))]"
  by (simp add: file_items_def example_env_def upt_conv_Cons file_info_def chunk_info_def)

lemma example_sendable:
  "list_all sendable (file_items example_env 4 ''a.txt'' ''0123456789'')"
  unfolding example_file_items
  by (simp add: file_info_def chunk_info_def completion_msg_def codec_eval)

theorem chunk_headers_declare_sizes_witness:
  "server_directory example_server ''a.txt'' = Some (Regular ''0123456789'') \<and>
   0 < chunk_size example_server \<and>
   list_all sendable (file_items example_env (chunk_size example_server) ''a.txt'' ''0123456789'') \<and>
   send_file example_env example_server idle_socket (JStr ''a.txt'') =
     Inr (idle_socket\<lparr>outbox := map item_bytes
       [Frame (dumps (file_info (JStr ''a.txt'') 10 3 4)),
        Frame (dumps (chunk_info 1 3 4)), Raw ''0123'',
        Frame (dumps (chunk_info 2 3 4)), Raw ''4567'',
        Frame (dumps (chunk_info 3 3 2)), Raw ''89'',
        Frame (dumps (completion_msg (JStr ''a.txt'')))]\<rparr>) \<and>
   py_item (chunk_info 1 3 4) ''chunk_size'' = Inr (JInt 4) \<and>
   py_item (chunk_info 2 3 4) ''chunk_size'' = Inr (JInt 4) \<and>
   py_item (chunk_info 3 3 2) ''chunk_size'' = Inr (JInt 2) \<and>
   (4::nat) + 4 + 2 = length ''0123456789''"
proof -
  have served: "server_directory example_server ''a.txt'' = Some (Regular ''0123456789'')"
    by (simp add: example_server_def flat_directory_def)
  have cs: "0 < chunk_size example_server" by (simp add: example_server_def)
  have sendable: "list_all sendable
      (file_items example_env (chunk_size example_server) ''a.txt'' ''0123456789'')"
    by (simp add: example_server_def example_sendable)
  from chunk_headers_declare_sizes[OF served cs sendable, of idle_socket]
  have "send_file example_env example_server idle_socket (JStr ''a.txt'') =
     Inr (idle_socket\<lparr>outbox := map item_bytes
       [Frame (dumps (file_info (JStr ''a.txt'') 10 3 4)),
        Frame (dumps (chunk_info 1 3 4)), Raw ''0123'',
        Frame (dumps (chunk_info 2 3 4)), Raw ''4567'',
        Frame (dumps (chunk_info 3 3 2)), Raw ''89'',
        Frame (dumps (completion_msg (JStr ''a.txt'')))]\<rparr>)"
    by (simp add: example_server_def example_env_def idle_socket_def upt_conv_Cons
        file_info_def chunk_info_def)
  moreover from chunk_headers_declare_sizes[OF served cs sendable, of idle_socket]
  have "py_item (chunk_info 1 3 4) ''chunk_size'' = Inr (JInt 4)"
    and "py_item (chunk_info 2 3 4) ''chunk_size'' = Inr (JInt 4)"
    and "py_item (chunk_info 3 3 2) ''chunk_size'' = Inr (JInt 2)"
    by (simp_all add: chunk_info_def)
  ultimately show ?thesis using served cs sendable by simp
qed

section \<open>What the client reads\<close>

lemma wire_length_simps [simp]:
  "wire_length [] = 0"
  "wire_length (Frame msg # items) = 4 + length msg + wire_length items"
  "wire_length (Raw data # items) = length data + wire_length items"
  "wire_length (xs @ ys) = wire_length xs + wire_length ys"
  by (simp_all add: wire_length_def)

lemma delivers_append:
  "delivers (xs @ ys) segs \<longleftrightarrow> delivers xs segs \<and> delivers ys (drop_bytes (wire_length xs) segs)"
proof (induction xs arbitrary: segs)
  case Nil
  show ?case by simp
next
  case (Cons x xs)
  show ?case by (cases x) (auto simp: Cons.IH drop_bytes_add add.assoc)
qed

lemma consume_simps [simp]:
  "buffer_size (consume n c) = buffer_size c"
  "download_directory (consume n c) = download_directory c"
  "downloaded (consume n c) = downloaded c"
  "writable (consume n c) = writable c"
  "inbox (socket (consume n c)) = drop_bytes n (inbox (socket c))"
  "outbox (socket (consume n c)) = outbox (socket c)"
  "closed (socket (consume n c)) = closed (socket c)"
  "consume n (consume m c) = consume (m + n) c"
  "consume 0 c = c"
  by (simp_all add: consume_def drop_bytes_add)

lemma file_write_simps [simp]:
  "buffer_size (file_write name data c) = buffer_size c"
  "socket (file_write name data c) = socket c"
  "downloaded (file_write name data c) = downloaded c"
  "writable (file_write name data c) = writable c"
  "file_write name b (file_write name a c) = file_write name (a @ b) c"
  "consume n (file_write name data c) = file_write name data (consume n c)"
  by (simp_all add: file_write_def consume_def split: option.splits)

lemma create_file_simps [simp]:
  "buffer_size (create_file name c) = buffer_size c"
  "socket (create_file name c) = socket c"
  "downloaded (create_file name c) = downloaded c"
  "writable (create_file name c) = writable c"
  "download_directory (create_file name c) = (download_directory c)(name \<mapsto> [])"
  "consume n (create_file name c) = create_file name (consume n c)"
  by (simp_all add: create_file_def consume_def)

lemma open_wb_writable: "writable c name \<Longrightarrow> open_wb name c = Inr (create_file name c)"
  by (simp add: open_wb_def)

lemma open_wb_refused: "\<not> writable c name \<Longrightarrow> open_wb name c = Inl (OSError, c)"
  by (simp add: open_wb_def)

lemma file_write_create_file:
  "download_directory (file_write name data (create_file name c)) = (download_directory c)(name \<mapsto> data)"
  by (simp add: file_write_def create_file_def)

lemma receive_json_frame:
  assumes "delivers (Frame msg # items) (inbox (socket c))" and "reads_as E msg v"
    and "0 < buffer_size c"
  shows "receive_json E c = (Message v, consume (4 + length msg) c)"
proof -
  from assms(1) have whole: "4 \<le> length (next_seg (inbox (socket c)))"
    and bytes: "take (4 + length msg) (concat (inbox (socket c))) = length_prefix (length msg) @ msg"
    by simp_all
  from assms(2) have len: "length msg < 2 ^ 32" and ne: "msg \<noteq> []" and utf: "utf8_valid msg"
    and loads: "json_loads E msg = Some v" by (simp_all add: reads_as_def)
  from receive_message_frame[OF assms(3) len whole bytes] utf ne loads
  show ?thesis by (simp add: receive_json_def decode_utf8_def consume_def)
qed


lemma recv_chunk_raw:
  assumes "delivers (Raw data # items) (inbox (socket c))" and "0 < buffer_size c"
  shows "recv_chunk (length data) c = (True, data, consume (length data) c)"
proof -
  from assms(1) have t: "take (length data) (concat (inbox (socket c))) = data" by simp
  then have "length (take (length data) (concat (inbox (socket c)))) = length data" by simp
  then have l: "length data \<le> length (concat (inbox (socket c)))" by simp
  from recv_exact_full[of "buffer_size c" "[]" "length data" "inbox (socket c)"] assms(2) l t
  show ?thesis by (simp add: recv_chunk_def consume_def)
qed

lemma header_okD:
  assumes "header_ok E (msg, data)"
  shows "\<exists>header size_field n chunk_number.
           reads_as E msg header \<and> py_item header ''chunk_size'' = Inr size_field \<and>
           py_number size_field = Some n \<and> nat n = length data \<and>
           py_item header ''chunk_number'' = Inr chunk_number"
  using assms by (auto simp: header_ok_def split: option.splits sum.splits)

lemma file_write_nothing:
  "download_directory c name = Some old \<Longrightarrow> file_write name [] c = c"
  by (simp add: file_write_def map_upd_triv)

lemma file_write_exists:
  "\<exists>new. download_directory (file_write name data c) name = Some new"
  by (simp add: file_write_def)

lemma receive_chunks_prefix:
  assumes "length chunks \<le> length ks" and "list_all (header_ok E) chunks"
    and "delivers (chunk_stream chunks) (inbox (socket c))" and "0 < buffer_size c"
    and "progress file_size = None \<or> chunks = []"
    and "download_directory c name = Some old"
  shows "receive_chunks E name file_size ks c =
     receive_chunks E name file_size (drop (length chunks) ks)
       (file_write name (concat (map snd chunks))
          (consume (wire_length (chunk_stream chunks)) c))"
  using assms
proof (induction chunks arbitrary: ks c old)
  case Nil
  then show ?case by (simp add: file_write_nothing)
next
  case (Cons chunk chunks)
  obtain msg data where chunk: "chunk = (msg, data)" by (cases chunk)
  from Cons.prems(1) obtain k ks' where ks: "ks = k # ks'" and len: "length chunks \<le> length ks'"
    by (cases ks) auto
  from Cons.prems(2) chunk have ok: "header_ok E (msg, data)"
    and rest: "list_all (header_ok E) chunks" by simp_all
  from header_okD[OF ok] obtain header size_field n chunk_number where
    h: "reads_as E msg header" and sz: "py_item header ''chunk_size'' = Inr size_field"
    and num: "py_number size_field = Some n" and n: "nat n = length data"
    and cn: "py_item header ''chunk_number'' = Inr chunk_number"
    by blast
  from Cons.prems(3) chunk have d1: "delivers (Frame msg # Raw data # chunk_stream chunks) (inbox (socket c))"
    by simp
  from receive_json_frame[OF d1 h Cons.prems(4)]
  have r1: "receive_json E c = (Message header, consume (4 + length msg) c)" .
  from d1 have d2: "delivers (Raw data # chunk_stream chunks) (inbox (socket (consume (4 + length msg) c)))"
    by simp
  from recv_chunk_raw[OF d2] Cons.prems(4)
  have r2: "recv_chunk (length data) (consume (4 + length msg) c) =
      (True, data, consume (4 + length msg + length data) c)" by simp
  from d2 have d3: "delivers (chunk_stream chunks) (inbox (socket (consume (4 + length msg + length data) c)))"
    by (simp add: drop_bytes_add)
  from Cons.prems(5) have p: "progress file_size = None" by simp
  define c3 where "c3 = file_write name data (consume (4 + length msg + length data) c)"
  have d3': "delivers (chunk_stream chunks) (inbox (socket c3))" using d3 by (simp add: c3_def)
  have b3: "0 < buffer_size c3" using Cons.prems(4) by (simp add: c3_def)
  obtain new where e3: "download_directory c3 name = Some new"
    using file_write_exists[of name data "consume (4 + length msg + length data) c"]
    by (auto simp: c3_def)
  have step: "receive_chunks E name file_size ks c = receive_chunks E name file_size ks' c3"
    by (simp add: ks r1 sz cn num n r2 p c3_def)
  have "receive_chunks E name file_size ks' c3 =
     receive_chunks E name file_size (drop (length chunks) ks')
       (file_write name (concat (map snd chunks)) (consume (wire_length (chunk_stream chunks)) c3))"
    using Cons.IH[OF len rest d3' b3 _ e3] p by simp
  then show ?case
    unfolding step by (simp add: ks chunk c3_def ac_simps)
qed

lemma receive_chunks_stream:
  assumes "length chunks = length ks" and "list_all (header_ok E) chunks"
    and "delivers (chunk_stream chunks) (inbox (socket c))" and "0 < buffer_size c"
    and "progress file_size = None \<or> chunks = []"
    and "download_directory c name = Some old"
  shows "receive_chunks E name file_size ks c =
     Inr (True, file_write name (concat (map snd chunks))
                  (consume (wire_length (chunk_stream chunks)) c))"
proof -
  from assms(1) have "length chunks \<le> length ks" by simp
  from receive_chunks_prefix[OF this assms(2-6)] assms(1) show ?thesis by simp
qed



lemma save_file_stream:
  assumes fields: "py_item info ''filename'' = Inr (JStr name)"
      "py_item info ''file_size'' = Inr file_size" "py_item info ''num_chunks'' = Inr num_chunks"
      "py_number num_chunks = Some n" "nat n = length chunks"
    and dest: "writable c name"
    and chunks: "list_all (header_ok E) chunks" "delivers (chunk_stream chunks) (inbox (socket c))"
      "progress file_size = None \<or> chunks = []"
    and buf: "0 < buffer_size c"
  shows "save_file E c info =
     (case receive_json E (file_write name (concat (map snd chunks))
                            (consume (wire_length (chunk_stream chunks)) (create_file name c))) of
        (Nothing, c3) \<Rightarrow> Inr (False, c3)
      | (Invalid, c3) \<Rightarrow> Inl (JSONDecodeError, c3)
      | (Message completion, c3) \<Rightarrow>
          (case py_item completion ''type'' of
             Inl e \<Rightarrow> Inl (e, c3)
           | Inr ty \<Rightarrow>
               if ty = JStr ''file_complete''
               then Inr (True, c3\<lparr>downloaded := downloaded c3 @ [name]\<rparr>)
               else Inr (False, c3)))"
proof -
  have len: "length chunks = length [0..<nat n]" using fields(5) by simp
  have d: "delivers (chunk_stream chunks) (inbox (socket (create_file name c)))" using chunks(2) by simp
  have b: "0 < buffer_size (create_file name c)" using buf by simp
  have e: "download_directory (create_file name c) name = Some []" by simp
  from receive_chunks_stream[OF len chunks(1) d b chunks(3) e]
  have r: "receive_chunks E name file_size [0..<nat n] (create_file name c) =
     Inr (True, file_write name (concat (map snd chunks))
                  (consume (wire_length (chunk_stream chunks)) (create_file name c)))" .
  show ?thesis
    by (simp add: save_file_def fields(1-4) open_wb_writable[OF dest] r)
qed


lemma send_json_client:
  "length (json_dumps E m) < 2 ^ 32 \<Longrightarrow>
   send_json E s m = Inr (send (item_bytes (Frame (json_dumps E m))) s)"
  by (simp add: send_json_def send_message_def to_bytes4_def)

text \<open>The state of the client when \<^verbatim>\<open>download_file\<close> has sent its command.\<close>

lemma download_file_stream:
  assumes cmd: "length (json_dumps E (download_cmd req)) < 2 ^ 32"
    and info: "reads_as E msg info" "py_item info ''type'' = Inr (JStr ''file_info'')"
    and fields: "py_item info ''filename'' = Inr (JStr name)"
      "py_item info ''file_size'' = Inr file_size" "py_item info ''num_chunks'' = Inr num_chunks"
      "py_number num_chunks = Some n" "nat n = length chunks"
    and dest: "writable c name"
    and chunks: "list_all (header_ok E) chunks"
      "delivers (Frame msg # chunk_stream chunks) (inbox (socket c))"
      "progress file_size = None \<or> chunks = []"
    and buf: "0 < buffer_size c"
  shows "download_file E c req =
     (case receive_json E
             (file_write name (concat (map snd chunks))
               (consume (4 + length msg + wire_length (chunk_stream chunks))
                 (create_file name
                   (c\<lparr>socket := send (item_bytes (Frame (json_dumps E (download_cmd req)))) (socket c)\<rparr>)))) of
        (Message completion, c3) \<Rightarrow>
          (case py_item completion ''type'' of
             Inl e \<Rightarrow> (False, c3)
           | Inr ty \<Rightarrow>
               if ty = JStr ''file_complete''
               then (True, c3\<lparr>downloaded := downloaded c3 @ [name]\<rparr>)
               else (False, c3))
      | (other, c3) \<Rightarrow> (False, c3))"
proof -
  define c0 where "c0 = c\<lparr>socket := send (item_bytes (Frame (json_dumps E (download_cmd req)))) (socket c)\<rparr>"
  have i0: "inbox (socket c0) = inbox (socket c)" and b0: "buffer_size c0 = buffer_size c"
    by (simp_all add: c0_def)
  from chunks(2) have d0: "delivers (Frame msg # chunk_stream chunks) (inbox (socket c0))"
    by (simp only: i0)
  from buf have buf0: "0 < buffer_size c0" by (simp only: b0)
  from receive_json_frame[OF d0 info(1) buf0]
  have r0: "receive_json E c0 = (Message info, consume (4 + length msg) c0)" .
  define c1 where "c1 = consume (4 + length msg) c0"
  from d0 have d1: "delivers (chunk_stream chunks) (inbox (socket c1))" by (simp add: c1_def)
  from buf0 have buf1: "0 < buffer_size c1" by (simp add: c1_def)
  from dest have dest1: "writable c1 name" by (simp add: c1_def c0_def)
  note sf = save_file_stream[OF fields dest1 chunks(1) d1 chunks(3) buf1]
  have body: "download_file_try E c req = save_file E c1 info"
    unfolding download_file_try_def send_json_client[OF cmd] sum.case c0_def[symmetric] r0
    using info(2) by (simp add: c1_def)
  have st: "consume (wire_length (chunk_stream chunks)) (create_file name c1) =
        consume (4 + length msg + wire_length (chunk_stream chunks)) (create_file name c0)"
    by (simp add: c1_def)
  show ?thesis
    unfolding download_file_def body sf st c0_def[symmetric]
    by (auto split: prod.splits received.splits sum.splits)
qed

lemma delivers_skip_empty [simp]: "delivers items ([] # segs) = delivers items segs"
proof (induction items arbitrary: segs)
  case Nil
  show ?case by simp
next
  case (Cons x xs)
  show ?case by (cases x) (auto simp: Cons.IH)
qed

lemma length_prefix_nonempty [simp]: "length_prefix n \<noteq> []"
  by (simp add: length_prefix_def)

lemma delivers_own_segments: "delivers items (map item_bytes items @ rest)"
proof (induction items)
  case Nil
  show ?case by simp
next
  case (Cons x xs)
  show ?case
  proof (cases x)
    case (Frame msg)
    with Cons show ?thesis by simp
  next
    case (Raw data)
    with Cons show ?thesis by (cases "data = []") simp_all
  qed
qed



lemmas client_eval = download_file_def download_file_try_def save_file_def receive_json_def
  receive_message_def recv_chunk_def recv_exact.simps open_wb_def create_file_def file_write_def
  send_json_def send_message_def to_bytes4_def send_def length_prefix_def int_from_bytes_def
  decode_utf8_def utf8_valid_def cont_byte_def progress_def download_cmd_def
  FileTransferClient_def plain_name_def example_env_def file_info_def chunk_info_def
  completion_msg_def file_items_def






lemma example_reads:
  "reads_as example_env (dumps (file_info (JStr ''a.txt'') 10 3 4)) (file_info (JStr ''a.txt'') 10 3 4)"
  "reads_as example_env (dumps (chunk_info 1 3 4)) (chunk_info 1 3 4)"
  "reads_as example_env (dumps (chunk_info 2 3 4)) (chunk_info 2 3 4)"
  "reads_as example_env (dumps (chunk_info 3 3 2)) (chunk_info 3 3 2)"
  "reads_as example_env (dumps (completion_msg (JStr ''a.txt''))) (completion_msg (JStr ''a.txt''))"
  by (simp_all add: reads_as_def example_env_def file_info_def chunk_info_def completion_msg_def
      codec_eval utf8_valid_def cont_byte_def)

lemma header_okI:
  assumes "reads_as E msg (chunk_info k n (length data))"
  shows "header_ok E (msg, data)"
  using assms by (simp add: header_ok_def reads_as_def chunk_info_def)




section \<open>A served file, from the server's disk to the client's\<close>

lemma chunk_items_stream: "chunk_items E cs n ks f = chunk_stream (chunk_pairs E cs n ks f)"
  by (induction ks arbitrary: f) simp_all

lemma length_chunk_pairs [simp]: "length (chunk_pairs E cs n ks f) = length ks"
  by (induction ks arbitrary: f) simp_all

lemma concat_chunk_pairs: "concat (map snd (chunk_pairs E cs n ks f)) = take (length ks * cs) f"
proof (induction ks arbitrary: f)
  case Nil
  show ?case by simp
next
  case (Cons k ks)
  have "take cs f @ take (length ks * cs) (drop cs f) = take (cs + length ks * cs) f"
    by (simp add: take_add)
  then show ?case by (simp add: Cons.IH)
qed

lemma round_trips_header:
  assumes "round_trips E (chunk_info k n (length data))"
  shows "header_ok E (json_dumps E (chunk_info k n (length data)), data)"
  using assms by (simp add: header_ok_def round_trips_def reads_as_def chunk_info_def)

lemma chunk_pairs_ok:
  "list_all (round_trips E) (chunk_msgs cs n ks f) \<Longrightarrow> list_all (header_ok E) (chunk_pairs E cs n ks f)"
proof (induction ks arbitrary: f)
  case Nil
  show ?case by simp
next
  case (Cons k ks)
  from Cons.prems have h: "round_trips E (chunk_info (k + 1) n (length (take cs f)))"
    and r: "list_all (round_trips E) (chunk_msgs cs n ks (drop cs f))" by simp_all
  from round_trips_header[OF h] Cons.IH[OF r] show ?case by simp
qed

lemma round_trips_sendable: "round_trips E m \<Longrightarrow> sendable (Frame (json_dumps E m))"
  by (simp add: round_trips_def reads_as_def)

lemma round_trips_length: "round_trips E m \<Longrightarrow> length (json_dumps E m) < 4294967296"
  by (simp add: round_trips_def reads_as_def)

lemma chunk_msgs_sendable:
  "list_all (round_trips E) (chunk_msgs cs n ks f) \<Longrightarrow> list_all sendable (chunk_items E cs n ks f)"
  by (induction ks arbitrary: f) (simp_all add: round_trips_length)

lemma file_msgs_sendable:
  "list_all (round_trips E) (file_msgs cs name content) \<Longrightarrow>
   list_all sendable (file_items E cs name content)"
  by (simp add: file_msgs_def file_items_def Let_def round_trips_length chunk_msgs_sendable)

lemma download_file_served:
  assumes cs: "0 < cs"
    and codec: "list_all (round_trips E) (file_msgs cs name content)"
    and cmd: "length (json_dumps E (download_cmd req)) < 2 ^ 32"
    and delivered: "delivers (file_items E cs name content) (inbox (socket c))"
    and dest: "writable c name"
    and buf: "0 < buffer_size c"
  shows "fst (download_file E c req) \<and>
     download_directory (snd (download_file E c req)) = (download_directory c)(name \<mapsto> content) \<and>
     downloaded (snd (download_file E c req)) = downloaded c @ [name] \<and>
     buffer_size (snd (download_file E c req)) = buffer_size c \<and>
     inbox (socket (snd (download_file E c req))) =
       drop_bytes (wire_length (file_items E cs name content)) (inbox (socket c))"
proof -
  define n where "n = (length content + cs - 1) div cs"
  define info where "info = file_info (JStr name) (length content) n cs"
  define chunks where "chunks = chunk_pairs E cs n [0..<n] content"
  define fin where "fin = completion_msg (JStr name)"
  have items: "file_items E cs name content =
      (Frame (json_dumps E info) # chunk_stream chunks) @ [Frame (json_dumps E fin)]"
    by (simp add: file_items_def Let_def n_def info_def chunks_def fin_def chunk_items_stream)
  from codec have rt_info: "round_trips E info"
    and rt_chunks: "list_all (round_trips E) (chunk_msgs cs n [0..<n] content)"
    and rt_done: "round_trips E fin"
    by (simp_all add: file_msgs_def Let_def n_def info_def fin_def)
  from rt_info have r_info: "reads_as E (json_dumps E info) info" by (simp add: round_trips_def)
  from rt_done have r_done: "reads_as E (json_dumps E fin) fin" by (simp add: round_trips_def)
  have ty: "py_item info ''type'' = Inr (JStr ''file_info'')"
    and f1: "py_item info ''filename'' = Inr (JStr name)"
    and f2: "py_item info ''file_size'' = Inr (JInt (int (length content)))"
    and f3: "py_item info ''num_chunks'' = Inr (JInt (int n))"
    by (simp_all add: info_def file_info_def)
  have f4: "py_number (JInt (int n)) = Some (int n)" by simp
  have f5: "nat (int n) = length chunks" by (simp add: chunks_def)
  have ok: "list_all (header_ok E) chunks" unfolding chunks_def by (rule chunk_pairs_ok[OF rt_chunks])
  from delivered have d1: "delivers (Frame (json_dumps E info) # chunk_stream chunks) (inbox (socket c))"
    and d2: "delivers [Frame (json_dumps E fin)]
        (drop_bytes (wire_length (Frame (json_dumps E info) # chunk_stream chunks)) (inbox (socket c)))"
    unfolding items delivers_append by simp_all
  have p: "progress (JInt (int (length content))) = None \<or> chunks = []"
  proof (cases "length content = 0")
    case True
    then have "n = 0" using num_chunks_zero[of cs] by (simp add: n_def)
    then show ?thesis by (simp add: chunks_def)
  next
    case False
    then show ?thesis by (simp add: progress_def)
  qed
  define c2 where "c2 = file_write name (concat (map snd chunks))
               (consume (4 + length (json_dumps E info) + wire_length (chunk_stream chunks))
                 (create_file name
                   (c\<lparr>socket := send (item_bytes (Frame (json_dumps E (download_cmd req)))) (socket c)\<rparr>)))"
  note df = download_file_stream[OF cmd r_info ty f1 f2 f3 f4 f5 dest ok d1 p buf, folded c2_def]
  have i2: "inbox (socket c2) =
      drop_bytes (wire_length (Frame (json_dumps E info) # chunk_stream chunks)) (inbox (socket c))"
    by (simp add: c2_def ac_simps)
  have b2: "0 < buffer_size c2" using buf by (simp add: c2_def)
  from d2 have d2': "delivers [Frame (json_dumps E fin)] (inbox (socket c2))" by (simp only: i2)
  from receive_json_frame[OF d2' r_done b2]
  have rj: "receive_json E c2 = (Message fin, consume (4 + length (json_dumps E fin)) c2)" .
  have tyd: "py_item fin ''type'' = Inr (JStr ''file_complete'')"
    by (simp add: fin_def completion_msg_def)
  have res: "download_file E c req =
      (True, (consume (4 + length (json_dumps E fin)) c2)
               \<lparr>downloaded := downloaded (consume (4 + length (json_dumps E fin)) c2) @ [name]\<rparr>)"
    unfolding df rj by (simp add: tyd)
  have "n * cs \<ge> length content" using num_chunks_covers[OF cs, of "length content"] by (simp add: n_def)
  then have data: "concat (map snd chunks) = content"
    by (simp add: chunks_def concat_chunk_pairs)
  have dir2: "download_directory c2 = (download_directory c)(name \<mapsto> content)"
    by (simp add: c2_def file_write_def create_file_def consume_def data)
  have log2: "downloaded c2 = downloaded c" and bs2: "buffer_size c2 = buffer_size c"
    by (simp_all add: c2_def)
  have wl: "wire_length (file_items E cs name content) =
      wire_length (Frame (json_dumps E info) # chunk_stream chunks) + (4 + length (json_dumps E fin))"
    unfolding items by simp
  show ?thesis
    unfolding res by (simp add: dir2 log2 bs2 i2 wl drop_bytes_add)
qed

text \<open>
  Claim C1. Let the server hold a regular file and the \<^verbatim>\<open>json\<close> module read back the messages
  of its transfer. Then \<^verbatim>\<open>send_file\<close> sends the trace of the file: file_info, the chunk headers
  each with its raw bytes, file_complete. When that trace reaches the client, with any cuts
  between and inside the reads except inside the four bytes of a length, and the client can
  open the destination for writing, \<^verbatim>\<open>download_file\<close> returns success and the destination
  file holds the bytes of the served file.
\<close>

theorem download_round_trip:
  assumes served: "server_directory srv name = Some (Regular content)" and cs: "0 < chunk_size srv"
    and codec: "list_all (round_trips E) (file_msgs (chunk_size srv) name content)"
    and cmd: "round_trips E (download_cmd name)"
    and delivered: "delivers (file_items E (chunk_size srv) name content) (inbox (socket c))"
    and dest: "writable c name"
    and buf: "0 < buffer_size c"
  shows "send_file E srv s (JStr name) =
           Inr (s\<lparr>outbox := outbox s @ map item_bytes (file_items E (chunk_size srv) name content)\<rparr>) \<and>
         fst (download_file E c name) \<and>
         download_directory (snd (download_file E c name)) = (download_directory c)(name \<mapsto> content)"
proof -
  from cmd have len: "length (json_dumps E (download_cmd name)) < 2 ^ 32"
    by (simp add: round_trips_def reads_as_def)
  from send_file_trace[OF served cs file_msgs_sendable[OF codec], of s]
    download_file_served[OF cs codec len delivered dest buf]
  show ?thesis by simp
qed

lemma example_file_msgs:
  "file_msgs 4 ''a.txt'' ''0123456789'' =
     [file_info (JStr ''a.txt'') 10 3 4, chunk_info 1 3 4, chunk_info 2 3 4, chunk_info 3 3 2,
      completion_msg (JStr ''a.txt'')]"
  by (simp add: file_msgs_def upt_conv_Cons file_info_def chunk_info_def)

lemma example_round_trips:
  "list_all (round_trips example_env) (file_msgs 4 ''a.txt'' ''0123456789'')"
  unfolding example_file_msgs using example_reads
  by (simp add: round_trips_def example_env_def)

lemma example_cmd: "round_trips example_env (download_cmd ''a.txt'')"
  by (simp add: round_trips_def reads_as_def example_env_def download_cmd_def codec_eval
      utf8_valid_def cont_byte_def)

theorem download_round_trip_witness:
  "server_directory example_server ''a.txt'' = Some (Regular ''0123456789'') \<and>
   0 < chunk_size example_server \<and>
   list_all (round_trips example_env) (file_msgs (chunk_size example_server) ''a.txt'' ''0123456789'') \<and>
   round_trips example_env (download_cmd ''a.txt'') \<and>
   delivers (file_items example_env (chunk_size example_server) ''a.txt'' ''0123456789'')
     (inbox (socket receiving_client)) \<and>
   writable receiving_client ''a.txt'' \<and>
   0 < buffer_size receiving_client \<and>
   send_file example_env example_server idle_socket (JStr ''a.txt'') =
     Inr (idle_socket\<lparr>outbox := inbox (socket receiving_client)\<rparr>) \<and>
   fst (download_file example_env receiving_client ''a.txt'') \<and>
   download_directory (snd (download_file example_env receiving_client ''a.txt'')) =
     [''a.txt'' \<mapsto> ''0123456789'']"
proof -
  have served: "server_directory example_server ''a.txt'' = Some (Regular ''0123456789'')"
    and cs: "0 < chunk_size example_server" and four: "chunk_size example_server = 4"
    by (simp_all add: example_server_def flat_directory_def)
  have codec: "list_all (round_trips example_env)
      (file_msgs (chunk_size example_server) ''a.txt'' ''0123456789'')"
    unfolding four by (rule example_round_trips)
  have inb: "inbox (socket receiving_client) =
      map item_bytes (file_items example_env (chunk_size example_server) ''a.txt'' ''0123456789'') @ []"
    by (simp add: receiving_client_def FileTransferClient_def four)
  have d: "delivers (file_items example_env (chunk_size example_server) ''a.txt'' ''0123456789'')
     (inbox (socket receiving_client))"
    unfolding inb by (rule delivers_own_segments)
  have b: "0 < buffer_size receiving_client"
    by (simp add: receiving_client_def FileTransferClient_def)
  have w: "writable receiving_client ''a.txt''"
    by (simp add: receiving_client_def FileTransferClient_def plain_name_def)
  have dir: "download_directory receiving_client = Map.empty"
    by (simp add: receiving_client_def FileTransferClient_def)
  from download_round_trip[OF served cs codec example_cmd d w b, of idle_socket]
  have "send_file example_env example_server idle_socket (JStr ''a.txt'') =
     Inr (idle_socket\<lparr>outbox := inbox (socket receiving_client)\<rparr>)"
    and "fst (download_file example_env receiving_client ''a.txt'')"
    and "download_directory (snd (download_file example_env receiving_client ''a.txt'')) =
     [''a.txt'' \<mapsto> ''0123456789'']"
    by (simp_all add: inb dir idle_socket_def)
  with served cs codec example_cmd d w b show ?thesis by (simp only: simp_thms)
qed

text \<open>
  The served directory of the example server holds one file, \<^verbatim>\<open>a.txt\<close>. For the name \<^verbatim>\<open>.\<close>, which
  is the name of no file in it, the path exists: it is the path of the directory itself.
  \<^verbatim>\<open>send_file\<close> sends two frames for it, a file_info with the size of the directory and then
  the error message of the \<^verbatim>\<open>open\<close> that has failed.
\<close>

theorem send_file_answers_directory_name:
  "\<not> present example_server ''.'' \<and>
   server_directory example_server ''.'' = Some (Special 4096) \<and>
   send_file example_env example_server idle_socket (JStr ''.'') =
     Inr (idle_socket\<lparr>outbox := map item_bytes
       [Frame (dumps (file_info (JStr ''.'') 4096 1024 4)),
        Frame (dumps (error_response
           (''Error sending file: [Errno 21] Is a directory: '' @ quoted ''server_files/.'')))]\<rparr>)"
  by (simp add: present_def example_server_def flat_directory_def send_file_def send_file_try_def
      num_chunks_of_def send_json_def send_message_def to_bytes4_def send_def idle_socket_def
      example_env_def exc_text_def file_info_def error_response_def quoted_def codec_eval)

text \<open>
  Claim C7, as the code has it. For a file name at whose path in the served directory
  nothing exists, \<^verbatim>\<open>send_file\<close> sends one frame, the error message
  \<^verbatim>\<open>File '<name>' not found\<close>, and nothing else. When that frame reaches the client,
  \<^verbatim>\<open>download_file\<close> returns failure and leaves the download directory as it was: no
  destination file is created.
\<close>

theorem download_missing_file:
  assumes missing: "server_directory srv name = None"
    and codec: "round_trips E (not_found name)"
    and cmd: "round_trips E (download_cmd name)"
    and delivered: "delivers [Frame (json_dumps E (not_found name))] (inbox (socket c))"
    and buf: "0 < buffer_size c"
  shows "send_file E srv s (JStr name) =
           Inr (s\<lparr>outbox := outbox s @ [item_bytes (Frame (json_dumps E (not_found name)))]\<rparr>) \<and>
         py_item (not_found name) ''type'' = Inr (JStr ''error'') \<and>
         \<not> fst (download_file E c name) \<and>
         download_directory (snd (download_file E c name)) = download_directory c"
proof -
  from codec have len: "length (json_dumps E (not_found name)) < 2 ^ 32"
    and rd: "reads_as E (json_dumps E (not_found name)) (not_found name)"
    by (simp_all add: round_trips_def reads_as_def)
  from cmd have clen: "length (json_dumps E (download_cmd name)) < 2 ^ 32"
    by (simp add: round_trips_def reads_as_def)
  have sent: "send_file E srv s (JStr name) =
      Inr (s\<lparr>outbox := outbox s @ [item_bytes (Frame (json_dumps E (not_found name)))]\<rparr>)"
    using missing send_json_sendable[OF len, of s]
    by (simp add: send_file_def send_file_try_def not_found_def)
  have ty: "py_item (not_found name) ''type'' = Inr (JStr ''error'')"
    and ms: "\<exists>m. py_item (not_found name) ''message'' = Inr m"
    by (simp_all add: not_found_def error_response_def)
  define c0 where "c0 = c\<lparr>socket := send (item_bytes (Frame (json_dumps E (download_cmd name)))) (socket c)\<rparr>"
  have d0: "delivers [Frame (json_dumps E (not_found name))] (inbox (socket c0))"
    and b0: "0 < buffer_size c0"
    using delivered buf by (simp_all add: c0_def)
  from receive_json_frame[OF d0 rd b0]
  have r0: "receive_json E c0 = (Message (not_found name), consume (4 + length (json_dumps E (not_found name))) c0)" .
  have "download_file_try E c name = Inr (False, consume (4 + length (json_dumps E (not_found name))) c0)"
    unfolding download_file_try_def send_json_client[OF clen] sum.case c0_def[symmetric] r0
    using ty ms by auto
  then have "download_file E c name = (False, consume (4 + length (json_dumps E (not_found name))) c0)"
    by (simp add: download_file_def)
  then have "\<not> fst (download_file E c name)"
    and "download_directory (snd (download_file E c name)) = download_directory c"
    by (simp_all add: c0_def)
  with sent ty show ?thesis by simp
qed

theorem download_missing_file_witness:
  "server_directory example_server ''b.txt'' = None \<and>
   round_trips example_env (not_found ''b.txt'') \<and>
   round_trips example_env (download_cmd ''b.txt'') \<and>
   delivers [Frame (json_dumps example_env (not_found ''b.txt''))] (inbox (socket refused_client)) \<and>
   0 < buffer_size refused_client \<and>
   send_file example_env example_server idle_socket (JStr ''b.txt'') =
     Inr (idle_socket\<lparr>outbox := inbox (socket refused_client)\<rparr>) \<and>
   \<not> fst (download_file example_env refused_client ''b.txt'') \<and>
   download_directory (snd (download_file example_env refused_client ''b.txt'')) = Map.empty"
proof -
  have missing: "server_directory example_server ''b.txt'' = None"
    by (simp add: example_server_def flat_directory_def)
  have codec: "round_trips example_env (not_found ''b.txt'')"
    by (simp add: round_trips_def reads_as_def example_env_def not_found_def error_response_def
        quoted_def codec_eval utf8_valid_def cont_byte_def)
  have cmd: "round_trips example_env (download_cmd ''b.txt'')"
    by (simp add: round_trips_def reads_as_def example_env_def download_cmd_def codec_eval
        utf8_valid_def cont_byte_def)
  have inb: "inbox (socket refused_client) =
      map item_bytes [Frame (json_dumps example_env (not_found ''b.txt''))] @ []"
    by (simp add: refused_client_def FileTransferClient_def example_env_def)
  have d: "delivers [Frame (json_dumps example_env (not_found ''b.txt''))] (inbox (socket refused_client))"
    unfolding inb by (rule delivers_own_segments)
  have b: "0 < buffer_size refused_client"
    and dir: "download_directory refused_client = Map.empty"
    by (simp_all add: refused_client_def FileTransferClient_def)
  from download_missing_file[OF missing codec cmd d b, of idle_socket]
  have "send_file example_env example_server idle_socket (JStr ''b.txt'') =
     Inr (idle_socket\<lparr>outbox := inbox (socket refused_client)\<rparr>)"
    and "\<not> fst (download_file example_env refused_client ''b.txt'')"
    and "download_directory (snd (download_file example_env refused_client ''b.txt'')) = Map.empty"
    by (simp_all add: inb dir idle_socket_def)
  with missing codec cmd d b show ?thesis by (simp only: simp_thms)
qed

section \<open>Several files in one transfer\<close>

lemma send_file_missing:
  assumes "server_directory srv name = None" and "round_trips E (not_found name)"
  shows "send_file E srv s (JStr name) =
     Inr (s\<lparr>outbox := outbox s @ map item_bytes (entry_items E srv name)\<rparr>)"
proof -
  from assms(2) have len: "length (json_dumps E (not_found name)) < 2 ^ 32"
    by (simp add: round_trips_def reads_as_def)
  show ?thesis
    using assms(1) send_json_sendable[OF len, of s]
    by (simp add: send_file_def send_file_try_def not_found_def entry_items_def)
qed

lemma send_file_refused:
  assumes "server_directory srv name = Some (Special bytes_reported)" and "0 < chunk_size srv"
    and "list_all (round_trips E) (refused_msgs E (chunk_size srv) name bytes_reported)"
  shows "send_file E srv s (JStr name) =
     Inr (s\<lparr>outbox := outbox s @ map item_bytes (entry_items E srv name)\<rparr>)"
proof -
  let ?info = "file_info (JStr name) bytes_reported
      ((bytes_reported + chunk_size srv - 1) div chunk_size srv) (chunk_size srv)"
  let ?err = "error_response (''Error sending file: '' @ exc_str E OSError)"
  from assms(3) have a: "length (json_dumps E ?info) < 2 ^ 32"
    and b: "length (json_dumps E ?err) < 2 ^ 32"
    by (simp_all add: refused_msgs_def round_trips_length)
  show ?thesis
    using assms(1,2) send_json_sendable[OF a, of s]
      send_json_sendable[OF b, of "s\<lparr>outbox := outbox s @ [item_bytes (Frame (json_dumps E ?info))]\<rparr>"]
    by (simp add: send_file_def send_file_try_def num_chunks_of_def Let_def entry_items_def
        refused_msgs_def)
qed

lemma send_file_entry:
  assumes "0 < chunk_size srv" and "list_all (round_trips E) (entry_msgs E srv name)"
  shows "send_file E srv s (JStr name) =
     Inr (s\<lparr>outbox := outbox s @ map item_bytes (entry_items E srv name)\<rparr>)"
proof (cases "server_directory srv name")
  case None
  with assms(2) have "round_trips E (not_found name)" by (simp add: entry_msgs_def)
  from send_file_missing[OF None this] show ?thesis .
next
  case (Some found)
  show ?thesis
  proof (cases found)
    case (Regular content)
    with Some assms(2) have "list_all (round_trips E) (file_msgs (chunk_size srv) name content)"
      by (simp add: entry_msgs_def)
    from send_file_trace[OF _ assms(1) file_msgs_sendable[OF this], of s] Some Regular
    show ?thesis by (simp add: entry_items_def)
  next
    case (Special bytes_reported)
    with Some assms(2)
    have "list_all (round_trips E) (refused_msgs E (chunk_size srv) name bytes_reported)"
      by (simp add: entry_msgs_def)
    from send_file_refused[OF _ assms(1) this, of s] Some Special show ?thesis by simp
  qed
qed

lemma send_files_trace:
  assumes "0 < chunk_size srv"
  shows "list_all (round_trips E) (multi_msgs E srv names) \<Longrightarrow>
     send_files E srv (map JStr names) s =
       Inr (s\<lparr>outbox := outbox s @ map item_bytes (multi_items E srv names)\<rparr>)"
proof (induction names arbitrary: s)
  case Nil
  show ?case by (simp add: multi_items_def)
next
  case (Cons name names)
  from Cons.prems have a: "list_all (round_trips E) (entry_msgs E srv name)"
    and b: "list_all (round_trips E) (multi_msgs E srv names)"
    by (simp_all add: multi_msgs_def)
  show ?case
    by (simp add: send_file_entry[OF assms a] Cons.IH[OF b] multi_items_def)
qed

lemma send_multiple_files_trace:
  assumes "0 < chunk_size srv"
    and "round_trips E (start_msg (length names) (JList (map JStr names)))"
    and "list_all (round_trips E) (multi_msgs E srv names)"
    and "round_trips E (multi_completion_msg (length names))"
  shows "send_multiple_files E srv s (JList (map JStr names)) =
     Inr (s\<lparr>outbox := outbox s @ map item_bytes
        (Frame (json_dumps E (start_msg (length names) (JList (map JStr names))))
         # multi_items E srv names
         @ [Frame (json_dumps E (multi_completion_msg (length names)))])\<rparr>)"
proof -
  note a = round_trips_length[OF assms(2)] and c = round_trips_length[OF assms(4)]
  show ?thesis
    using a c
    by (simp add: send_multiple_files_def send_multiple_files_try_def send_json_sendable
        send_files_trace[OF assms(1,3)])
qed

lemma receive_chunks_multi_stream:
  assumes "length chunks = length ks" and "list_all (header_ok E) chunks"
    and "delivers (chunk_stream chunks) (inbox (socket c))" and "0 < buffer_size c"
    and "progress file_size = None \<or> chunks = []"
    and "download_directory c name = Some old"
  shows "receive_chunks_multi E name file_size ks c =
     Inr (file_write name (concat (map snd chunks))
            (consume (wire_length (chunk_stream chunks)) c))"
  using assms
proof (induction chunks arbitrary: ks c old)
  case Nil
  then show ?case by (simp add: file_write_nothing)
next
  case (Cons chunk chunks)
  obtain msg data where chunk: "chunk = (msg, data)" by (cases chunk)
  from Cons.prems(1) obtain k ks' where ks: "ks = k # ks'" and len: "length chunks = length ks'"
    by (cases ks) auto
  from Cons.prems(2) chunk have ok: "header_ok E (msg, data)"
    and rest: "list_all (header_ok E) chunks" by simp_all
  from header_okD[OF ok] obtain header size_field n chunk_number where
    h: "reads_as E msg header" and sz: "py_item header ''chunk_size'' = Inr size_field"
    and num: "py_number size_field = Some n" and n: "nat n = length data"
    and cn: "py_item header ''chunk_number'' = Inr chunk_number"
    by blast
  from Cons.prems(3) chunk have d1: "delivers (Frame msg # Raw data # chunk_stream chunks) (inbox (socket c))"
    by simp
  from receive_json_frame[OF d1 h Cons.prems(4)]
  have r1: "receive_json E c = (Message header, consume (4 + length msg) c)" .
  from d1 have d2: "delivers (Raw data # chunk_stream chunks) (inbox (socket (consume (4 + length msg) c)))"
    by simp
  from recv_chunk_raw[OF d2] Cons.prems(4)
  have r2: "recv_chunk (length data) (consume (4 + length msg) c) =
      (True, data, consume (4 + length msg + length data) c)" by simp
  from d2 have d3: "delivers (chunk_stream chunks) (inbox (socket (consume (4 + length msg + length data) c)))"
    by (simp add: drop_bytes_add)
  from Cons.prems(5) have p: "progress file_size = None" by simp
  define c3 where "c3 = file_write name data (consume (4 + length msg + length data) c)"
  have d3': "delivers (chunk_stream chunks) (inbox (socket c3))" using d3 by (simp add: c3_def)
  have b3: "0 < buffer_size c3" using Cons.prems(4) by (simp add: c3_def)
  obtain new where e3: "download_directory c3 name = Some new"
    using file_write_exists[of name data "consume (4 + length msg + length data) c"]
    by (auto simp: c3_def)
  have step: "receive_chunks_multi E name file_size ks c = receive_chunks_multi E name file_size ks' c3"
    by (simp add: ks r1 sz cn num n r2 p c3_def)
  have "receive_chunks_multi E name file_size ks' c3 =
     Inr (file_write name (concat (map snd chunks)) (consume (wire_length (chunk_stream chunks)) c3))"
    using Cons.IH[OF len rest d3' b3 _ e3] p by simp
  then show ?case
    unfolding step by (simp add: chunk c3_def ac_simps)
qed

lemma save_file_multi_stream:
  assumes fields: "py_item info ''filename'' = Inr (JStr name)"
      "py_item info ''file_size'' = Inr file_size" "py_item info ''num_chunks'' = Inr num_chunks"
      "py_number num_chunks = Some n" "nat n = length chunks"
    and dest: "writable c name"
    and chunks: "list_all (header_ok E) chunks" "delivers (chunk_stream chunks) (inbox (socket c))"
      "progress file_size = None \<or> chunks = []"
    and buf: "0 < buffer_size c"
  shows "save_file_multi E c info =
     (case receive_json E (file_write name (concat (map snd chunks))
                            (consume (wire_length (chunk_stream chunks)) (create_file name c))) of
        (Nothing, c3) \<Rightarrow> Inr c3
      | (Invalid, c3) \<Rightarrow> Inl (JSONDecodeError, c3)
      | (Message completion, c3) \<Rightarrow>
          (case py_item completion ''type'' of
             Inl e \<Rightarrow> Inl (e, c3)
           | Inr ty \<Rightarrow>
               if ty = JStr ''file_complete''
               then Inr (c3\<lparr>downloaded := downloaded c3 @ [name]\<rparr>)
               else Inr c3))"
proof -
  have len: "length chunks = length [0..<nat n]" using fields(5) by simp
  have d: "delivers (chunk_stream chunks) (inbox (socket (create_file name c)))" using chunks(2) by simp
  have b: "0 < buffer_size (create_file name c)" using buf by simp
  have e: "download_directory (create_file name c) name = Some []" by simp
  from receive_chunks_multi_stream[OF len chunks(1) d b chunks(3) e]
  have r: "receive_chunks_multi E name file_size [0..<nat n] (create_file name c) =
     Inr (file_write name (concat (map snd chunks))
            (consume (wire_length (chunk_stream chunks)) (create_file name c)))" .
  show ?thesis
    by (simp add: save_file_multi_def fields(1-4) open_wb_writable[OF dest] r)
qed

lemma receive_files_present:
  assumes cs: "0 < cs"
    and codec: "list_all (round_trips E) (file_msgs cs name content)"
    and delivered: "delivers (file_items E cs name content) (inbox (socket c))"
    and dest: "writable c name"
    and buf: "0 < buffer_size c"
  shows "\<exists>c'. receive_files E (k # ks) c = receive_files E ks c' \<and>
     buffer_size c' = buffer_size c \<and> writable c' = writable c \<and>
     download_directory c' = (download_directory c)(name \<mapsto> content) \<and>
     downloaded c' = downloaded c @ [name] \<and>
     inbox (socket c') = drop_bytes (wire_length (file_items E cs name content)) (inbox (socket c))"
proof -
  define n where "n = (length content + cs - 1) div cs"
  define info where "info = file_info (JStr name) (length content) n cs"
  define chunks where "chunks = chunk_pairs E cs n [0..<n] content"
  define fin where "fin = completion_msg (JStr name)"
  have items: "file_items E cs name content =
      (Frame (json_dumps E info) # chunk_stream chunks) @ [Frame (json_dumps E fin)]"
    by (simp add: file_items_def Let_def n_def info_def chunks_def fin_def chunk_items_stream)
  from codec have rt_info: "round_trips E info"
    and rt_chunks: "list_all (round_trips E) (chunk_msgs cs n [0..<n] content)"
    and rt_fin: "round_trips E fin"
    by (simp_all add: file_msgs_def Let_def n_def info_def fin_def)
  from rt_info have r_info: "reads_as E (json_dumps E info) info" by (simp add: round_trips_def)
  from rt_fin have r_fin: "reads_as E (json_dumps E fin) fin" by (simp add: round_trips_def)
  have ty: "py_item info ''type'' = Inr (JStr ''file_info'')"
    and f1: "py_item info ''filename'' = Inr (JStr name)"
    and f2: "py_item info ''file_size'' = Inr (JInt (int (length content)))"
    and f3: "py_item info ''num_chunks'' = Inr (JInt (int n))"
    by (simp_all add: info_def file_info_def)
  have f4: "py_number (JInt (int n)) = Some (int n)" by simp
  have f5: "nat (int n) = length chunks" by (simp add: chunks_def)
  have ok: "list_all (header_ok E) chunks" unfolding chunks_def by (rule chunk_pairs_ok[OF rt_chunks])
  from delivered have d1: "delivers (Frame (json_dumps E info) # chunk_stream chunks) (inbox (socket c))"
    and d2: "delivers [Frame (json_dumps E fin)]
        (drop_bytes (wire_length (Frame (json_dumps E info) # chunk_stream chunks)) (inbox (socket c)))"
    unfolding items delivers_append by simp_all
  have p: "progress (JInt (int (length content))) = None \<or> chunks = []"
  proof (cases "length content = 0")
    case True
    then have "n = 0" using num_chunks_zero[of cs] by (simp add: n_def)
    then show ?thesis by (simp add: chunks_def)
  next
    case False
    then show ?thesis by (simp add: progress_def)
  qed
  from receive_json_frame[OF d1 r_info buf]
  have r0: "receive_json E c = (Message info, consume (4 + length (json_dumps E info)) c)" .
  define c1 where "c1 = consume (4 + length (json_dumps E info)) c"
  from d1 have dc: "delivers (chunk_stream chunks) (inbox (socket c1))" by (simp add: c1_def)
  from buf have buf1: "0 < buffer_size c1" by (simp add: c1_def)
  from dest have dest1: "writable c1 name" by (simp add: c1_def)
  define c2 where "c2 = file_write name (concat (map snd chunks))
                            (consume (wire_length (chunk_stream chunks)) (create_file name c1))"
  note sf = save_file_multi_stream[OF f1 f2 f3 f4 f5 dest1 ok dc p buf1, folded c2_def]
  have i2: "inbox (socket c2) =
      drop_bytes (wire_length (Frame (json_dumps E info) # chunk_stream chunks)) (inbox (socket c))"
    by (simp add: c2_def c1_def ac_simps)
  have b2: "0 < buffer_size c2" using buf by (simp add: c2_def c1_def)
  from d2 have d2': "delivers [Frame (json_dumps E fin)] (inbox (socket c2))" by (simp only: i2)
  from receive_json_frame[OF d2' r_fin b2]
  have rj: "receive_json E c2 = (Message fin, consume (4 + length (json_dumps E fin)) c2)" .
  have tyd: "py_item fin ''type'' = Inr (JStr ''file_complete'')"
    by (simp add: fin_def completion_msg_def)
  define c' where "c' = (consume (4 + length (json_dumps E fin)) c2)
               \<lparr>downloaded := downloaded (consume (4 + length (json_dumps E fin)) c2) @ [name]\<rparr>"
  have sfm: "save_file_multi E c1 info = Inr c'"
    unfolding sf rj by (simp add: tyd c'_def)
  have step: "receive_files E (k # ks) c = receive_files E ks c'"
    by (simp add: r0 ty c1_def[symmetric] sfm)
  have "n * cs \<ge> length content" using num_chunks_covers[OF cs, of "length content"] by (simp add: n_def)
  then have data: "concat (map snd chunks) = content"
    by (simp add: chunks_def concat_chunk_pairs)
  have dir2: "download_directory c2 = (download_directory c)(name \<mapsto> content)"
    by (simp add: c2_def c1_def file_write_def create_file_def consume_def data)
  have log2: "downloaded c2 = downloaded c" and bs2: "buffer_size c2 = buffer_size c"
    and w2: "writable c2 = writable c"
    by (simp_all add: c2_def c1_def)
  have wl: "wire_length (file_items E cs name content) =
      wire_length (Frame (json_dumps E info) # chunk_stream chunks) + (4 + length (json_dumps E fin))"
    unfolding items by simp
  have "buffer_size c' = buffer_size c \<and> writable c' = writable c \<and>
     download_directory c' = (download_directory c)(name \<mapsto> content) \<and>
     downloaded c' = downloaded c @ [name] \<and>
     inbox (socket c') = drop_bytes (wire_length (file_items E cs name content)) (inbox (socket c))"
    by (simp add: c'_def dir2 log2 bs2 w2 i2 wl drop_bytes_add)
  with step show ?thesis by blast
qed

lemma receive_files_missing:
  assumes codec: "round_trips E (not_found name)"
    and delivered: "delivers [Frame (json_dumps E (not_found name))] (inbox (socket c))"
    and buf: "0 < buffer_size c"
  shows "\<exists>c'. receive_files E (k # ks) c = receive_files E ks c' \<and>
     buffer_size c' = buffer_size c \<and> writable c' = writable c \<and>
     download_directory c' = download_directory c \<and>
     downloaded c' = downloaded c \<and>
     inbox (socket c') = drop_bytes (wire_length [Frame (json_dumps E (not_found name))]) (inbox (socket c))"
proof -
  from codec have rd: "reads_as E (json_dumps E (not_found name)) (not_found name)"
    by (simp add: round_trips_def)
  have ty: "py_item (not_found name) ''type'' = Inr (JStr ''error'')"
    and ms: "py_item (not_found name) ''message'' = Inr (JStr (''File '' @ quoted name @ '' not found''))"
    by (simp_all add: not_found_def error_response_def)
  from receive_json_frame[OF delivered rd buf]
  have r0: "receive_json E c = (Message (not_found name), consume (4 + length (json_dumps E (not_found name))) c)" .
  have "receive_files E (k # ks) c = receive_files E ks (consume (4 + length (json_dumps E (not_found name))) c)"
    by (simp add: r0 ty ms)
  then show ?thesis by (intro exI[of _ "consume (4 + length (json_dumps E (not_found name))) c"]) simp
qed

lemma receive_files_served:
  assumes cs: "0 < chunk_size srv"
  shows "length ks = length names \<Longrightarrow> list_all (round_trips E) (multi_msgs E srv names) \<Longrightarrow>
     list_all (\<lambda>name. present srv name \<or> missing srv name) names \<Longrightarrow>
     list_all (writable c) (filter (present srv) names) \<Longrightarrow>
     delivers (multi_items E srv names) (inbox (socket c)) \<Longrightarrow> 0 < buffer_size c \<Longrightarrow>
     \<exists>c'. receive_files E ks c = Inr (True, c') \<and>
       buffer_size c' = buffer_size c \<and> writable c' = writable c \<and>
       download_directory c' = store srv names (download_directory c) \<and>
       downloaded c' = downloaded c @ filter (present srv) names \<and>
       inbox (socket c') = drop_bytes (wire_length (multi_items E srv names)) (inbox (socket c))"
proof (induction names arbitrary: ks c)
  case Nil
  then show ?case by (simp add: multi_items_def)
next
  case (Cons name names)
  from Cons.prems(1) obtain k ks' where ks: "ks = k # ks'" and len: "length ks' = length names"
    by (cases ks) auto
  from Cons.prems(2) have a: "list_all (round_trips E) (entry_msgs E srv name)"
    and b: "list_all (round_trips E) (multi_msgs E srv names)"
    by (simp_all add: multi_msgs_def)
  from Cons.prems(3) have kind: "present srv name \<or> missing srv name"
    and kinds: "list_all (\<lambda>name. present srv name \<or> missing srv name) names" by simp_all
  from Cons.prems(4) have w: "present srv name \<Longrightarrow> writable c name"
    and ws: "list_all (writable c) (filter (present srv) names)" by (simp_all split: if_splits)
  have mi: "multi_items E srv (name # names) = entry_items E srv name @ multi_items E srv names"
    by (simp add: multi_items_def)
  from Cons.prems(5) have d1: "delivers (entry_items E srv name) (inbox (socket c))"
    and d2: "delivers (multi_items E srv names)
        (drop_bytes (wire_length (entry_items E srv name)) (inbox (socket c)))"
    unfolding mi delivers_append by simp_all
  have "\<exists>c1. receive_files E (k # ks') c = receive_files E ks' c1 \<and>
     buffer_size c1 = buffer_size c \<and> writable c1 = writable c \<and>
     download_directory c1 = store srv [name] (download_directory c) \<and>
     downloaded c1 = downloaded c @ filter (present srv) [name] \<and>
     inbox (socket c1) = drop_bytes (wire_length (entry_items E srv name)) (inbox (socket c))"
  proof (cases "server_directory srv name")
    case None
    with a have rt: "round_trips E (not_found name)" by (simp add: entry_msgs_def)
    from None d1 have d: "delivers [Frame (json_dumps E (not_found name))] (inbox (socket c))"
      by (simp add: entry_items_def)
    from receive_files_missing[OF rt d Cons.prems(6), of k ks'] None
    show ?thesis by (simp add: entry_items_def present_def)
  next
    case (Some found)
    with kind obtain content where found: "found = Regular content"
      by (cases found) (simp_all add: present_def missing_def)
    from Some found have pr: "present srv name" by (simp add: present_def)
    from Some found a have rt: "list_all (round_trips E) (file_msgs (chunk_size srv) name content)"
      by (simp add: entry_msgs_def)
    from Some found d1 have d: "delivers (file_items E (chunk_size srv) name content) (inbox (socket c))"
      by (simp add: entry_items_def)
    from receive_files_present[OF cs rt d w[OF pr] Cons.prems(6), of k ks'] Some found
    show ?thesis by (simp add: entry_items_def present_def)
  qed
  then obtain c1 where step: "receive_files E (k # ks') c = receive_files E ks' c1"
    and b1: "buffer_size c1 = buffer_size c" and w1: "writable c1 = writable c"
    and dir1: "download_directory c1 = store srv [name] (download_directory c)"
    and log1: "downloaded c1 = downloaded c @ filter (present srv) [name]"
    and in1: "inbox (socket c1) = drop_bytes (wire_length (entry_items E srv name)) (inbox (socket c))"
    by blast
  from d2 in1 have d2': "delivers (multi_items E srv names) (inbox (socket c1))" by simp
  from Cons.prems(6) b1 have buf1: "0 < buffer_size c1" by simp
  from ws w1 have ws1: "list_all (writable c1) (filter (present srv) names)" by simp
  from Cons.IH[OF len b kinds ws1 d2' buf1] obtain c' where
    r: "receive_files E ks' c1 = Inr (True, c')" and b': "buffer_size c' = buffer_size c1"
    and w': "writable c' = writable c1"
    and dir': "download_directory c' = store srv names (download_directory c1)"
    and log': "downloaded c' = downloaded c1 @ filter (present srv) names"
    and in': "inbox (socket c') = drop_bytes (wire_length (multi_items E srv names)) (inbox (socket c1))"
    by blast
  have "receive_files E ks c = Inr (True, c')" using ks step r by simp
  moreover have "buffer_size c' = buffer_size c" using b' b1 by simp
  moreover have "writable c' = writable c" using w' w1 by simp
  moreover have "download_directory c' = store srv (name # names) (download_directory c)"
    using dir' dir1 by simp
  moreover have "downloaded c' = downloaded c @ filter (present srv) (name # names)"
    using log' log1 by simp
  moreover have "inbox (socket c') =
      drop_bytes (wire_length (multi_items E srv (name # names))) (inbox (socket c))"
    using in' in1 by (simp add: mi drop_bytes_add)
  ultimately show ?case by blast
qed

lemmas multi_eval = download_multiple_files_def download_multiple_files_try_def
  receive_files.simps save_file_multi_def receive_chunks_multi.simps download_multiple_cmd_def
  start_msg_def multi_completion_msg_def multi_items_def entry_items_def refused_msgs_def
  not_found_def error_response_def quoted_def exc_text_def

lemmas server_eval = send_multiple_files_def send_multiple_files_try_def send_files.simps
  send_file_def send_file_try_def send_chunks.simps num_chunks_of_def idle_socket_def
  flat_directory_def

lemma nested_sent:
  "send_multiple_files example_env nested_server idle_socket (JList [JStr ''b.txt'', JStr ''sub/a.txt'']) =
     Inr (idle_socket\<lparr>outbox := inbox (socket nested_multi_client)\<rparr>)"
  by (simp add: nested_multi_client_def nested_server_def server_eval multi_eval client_eval
      codec_eval upt_conv_Cons)

lemma nested_received:
  "\<not> fst (download_multiple_files example_env nested_multi_client [''b.txt'', ''sub/a.txt''])"
  "download_directory (snd (download_multiple_files example_env nested_multi_client [''b.txt'', ''sub/a.txt''])) = Map.empty"
  "downloaded (snd (download_multiple_files example_env nested_multi_client [''b.txt'', ''sub/a.txt''])) = []"
  by (simp_all add: nested_multi_client_def nested_server_def multi_eval client_eval
      flat_directory_def codec_eval upt_conv_Cons)

lemma dot_sent:
  "send_multiple_files example_env example_server idle_socket (JList [JStr ''.'', JStr ''a.txt'']) =
     Inr (idle_socket\<lparr>outbox := inbox (socket dot_multi_client)\<rparr>)"
  by (simp add: dot_multi_client_def example_server_def server_eval multi_eval client_eval
      codec_eval upt_conv_Cons)

lemma dot_received:
  "\<not> fst (download_multiple_files example_env dot_multi_client [''.'', ''a.txt''])"
  "download_directory (snd (download_multiple_files example_env dot_multi_client [''.'', ''a.txt''])) = Map.empty"
  "downloaded (snd (download_multiple_files example_env dot_multi_client [''.'', ''a.txt''])) = []"
  by (simp_all add: dot_multi_client_def example_server_def multi_eval client_eval
      flat_directory_def codec_eval upt_conv_Cons)


lemma store_lookup:
  "store srv names directory name =
     (if name \<in> set names \<and> present srv name then served_content srv name else directory name)"
proof (induction names arbitrary: directory)
  case Nil
  show ?case by simp
next
  case (Cons n names)
  show ?case
  proof (cases "server_directory srv n")
    case None
    then show ?thesis by (auto simp: Cons.IH present_def)
  next
    case (Some found)
    show ?thesis
    proof (cases found)
      case (Regular content)
      with Some show ?thesis by (auto simp: Cons.IH present_def served_content_def)
    next
      case (Special bytes_reported)
      with Some show ?thesis by (auto simp: Cons.IH present_def)
    qed
  qed
qed

lemma present_or_missing_count:
  "list_all (\<lambda>name. present srv name \<or> missing srv name) names \<Longrightarrow>
   length (filter (present srv) names) = length names - length (filter (missing srv) names)"
proof (induction names)
  case Nil
  show ?case by simp
next
  case (Cons name names)
  have le: "length (filter (missing srv) names) \<le> length names" by simp
  have excl: "\<not> (present srv name \<and> missing srv name)"
    by (auto simp: present_def missing_def split: option.splits)
  from Cons le excl show ?case by (auto simp: Suc_diff_le)
qed

lemma download_multiple_files_served:
  assumes cs: "0 < chunk_size srv"
    and cmd: "length (json_dumps E (download_multiple_cmd req)) < 2 ^ 32"
    and start: "round_trips E (start_msg (length names) echo)"
    and codec: "list_all (round_trips E) (multi_msgs E srv names)"
    and kinds: "list_all (\<lambda>name. present srv name \<or> missing srv name) names"
    and dest: "list_all (writable c) (filter (present srv) names)"
    and final: "reads_as E ftext final" "py_item final ''type'' = Inr ty"
    and delivered: "delivers (Frame (json_dumps E (start_msg (length names) echo))
                              # multi_items E srv names @ [Frame ftext]) (inbox (socket c))"
    and buf: "0 < buffer_size c"
  shows "\<exists>c'. download_multiple_files E c req = (ty = JStr ''multiple_transfer_complete'', c') \<and>
     download_directory c' = store srv names (download_directory c) \<and>
     downloaded c' = downloaded c @ filter (present srv) names"
proof -
  define st where "st = start_msg (length names) echo"
  define c0 where "c0 = c\<lparr>socket := send (item_bytes (Frame (json_dumps E (download_multiple_cmd req)))) (socket c)\<rparr>"
  from start have r_st: "reads_as E (json_dumps E st) st" by (simp add: round_trips_def st_def)
  have ty: "py_item st ''type'' = Inr (JStr ''multiple_transfer_start'')"
    and tf: "py_item st ''total_files'' = Inr (JInt (int (length names)))"
    by (simp_all add: st_def start_msg_def)
  have split: "Frame (json_dumps E st) # multi_items E srv names @ [Frame ftext] =
      [Frame (json_dumps E st)] @ multi_items E srv names @ [Frame ftext]" by simp
  from delivered have d0: "delivers [Frame (json_dumps E st)] (inbox (socket c0))"
    and d1: "delivers (multi_items E srv names)
        (drop_bytes (wire_length [Frame (json_dumps E st)]) (inbox (socket c0)))"
    and d2: "delivers [Frame ftext]
        (drop_bytes (wire_length (multi_items E srv names))
          (drop_bytes (wire_length [Frame (json_dumps E st)]) (inbox (socket c0))))"
    unfolding st_def[symmetric] split delivers_append by (simp_all add: c0_def)
  have b0: "0 < buffer_size c0" using buf by (simp add: c0_def)
  from receive_json_frame[OF d0 r_st b0]
  have r0: "receive_json E c0 = (Message st, consume (4 + length (json_dumps E st)) c0)" .
  define c1 where "c1 = consume (4 + length (json_dumps E st)) c0"
  have d1': "delivers (multi_items E srv names) (inbox (socket c1))" using d1 by (simp add: c1_def)
  have b1: "0 < buffer_size c1" using b0 by (simp add: c1_def)
  have w1: "list_all (writable c1) (filter (present srv) names)"
    using dest by (simp add: c1_def c0_def)
  have len: "length [0..<nat (int (length names))] = length names" by simp
  from receive_files_served[OF cs len codec kinds w1 d1' b1] obtain c2 where
    rf: "receive_files E [0..<nat (int (length names))] c1 = Inr (True, c2)"
    and b2: "buffer_size c2 = buffer_size c1"
    and dir2: "download_directory c2 = store srv names (download_directory c1)"
    and log2: "downloaded c2 = downloaded c1 @ filter (present srv) names"
    and in2: "inbox (socket c2) = drop_bytes (wire_length (multi_items E srv names)) (inbox (socket c1))"
    by blast
  from rf have rf': "receive_files E [0..<length names] c1 = Inr (True, c2)" by simp
  have d2': "delivers [Frame ftext] (inbox (socket c2))" using d2 in2 by (simp add: c1_def)
  have buf2: "0 < buffer_size c2" using b1 b2 by simp
  from receive_json_frame[OF d2' final(1) buf2]
  have r2: "receive_json E c2 = (Message final, consume (4 + length ftext) c2)" .
  have body: "download_multiple_files_try E c req =
      Inr (ty = JStr ''multiple_transfer_complete'', consume (4 + length ftext) c2)"
    unfolding download_multiple_files_try_def send_json_client[OF cmd] sum.case c0_def[symmetric] r0
    by (simp add: ty tf c1_def[symmetric] rf' r2 final(2))
  have "download_multiple_files E c req =
      (ty = JStr ''multiple_transfer_complete'', consume (4 + length ftext) c2)"
    by (simp add: download_multiple_files_def body)
  moreover have "download_directory (consume (4 + length ftext) c2) = store srv names (download_directory c)"
    by (simp add: dir2 c1_def c0_def)
  moreover have "downloaded (consume (4 + length ftext) c2) = downloaded c @ filter (present srv) names"
    by (simp add: log2 c1_def c0_def)
  ultimately show ?thesis by blast
qed

text \<open>
  Two multi-file requests that name a file the server does not have. In the first the
  other name, \<^verbatim>\<open>sub/a.txt\<close>, is a file that the server holds in a sub-directory; the server
  sends the error message for \<^verbatim>\<open>b.txt\<close> and then the whole file, and the client, whose download
  directory has no \<^verbatim>\<open>sub\<close>, fails to open the destination: the call returns failure and no
  file has been written. In the second the name \<^verbatim>\<open>.\<close> is no file of the served directory but
  its path exists; the server sends a file_info and an error message for it and then the
  file \<^verbatim>\<open>a.txt\<close>, and the client fails on the file_info: the call returns failure and
  \<^verbatim>\<open>a.txt\<close> has not been written.
\<close>

theorem multiple_download_aborted:
  "missing nested_server ''b.txt'' \<and> present nested_server ''sub/a.txt'' \<and>
   send_multiple_files example_env nested_server idle_socket (JList [JStr ''b.txt'', JStr ''sub/a.txt'']) =
     Inr (idle_socket\<lparr>outbox := inbox (socket nested_multi_client)\<rparr>) \<and>
   \<not> fst (download_multiple_files example_env nested_multi_client [''b.txt'', ''sub/a.txt'']) \<and>
   download_directory (snd (download_multiple_files example_env nested_multi_client [''b.txt'', ''sub/a.txt''])) =
     Map.empty \<and>
   downloaded (snd (download_multiple_files example_env nested_multi_client [''b.txt'', ''sub/a.txt''])) = [] \<and>
   \<not> present example_server ''.'' \<and> present example_server ''a.txt'' \<and>
   send_multiple_files example_env example_server idle_socket (JList [JStr ''.'', JStr ''a.txt'']) =
     Inr (idle_socket\<lparr>outbox := inbox (socket dot_multi_client)\<rparr>) \<and>
   \<not> fst (download_multiple_files example_env dot_multi_client [''.'', ''a.txt'']) \<and>
   download_directory (snd (download_multiple_files example_env dot_multi_client [''.'', ''a.txt''])) =
     Map.empty \<and>
   downloaded (snd (download_multiple_files example_env dot_multi_client [''.'', ''a.txt''])) = []"
proof -
  have kinds: "missing nested_server ''b.txt''" "present nested_server ''sub/a.txt''"
    "\<not> present example_server ''.''" "present example_server ''a.txt''"
    by (simp_all add: missing_def present_def nested_server_def example_server_def flat_directory_def)
  from kinds nested_sent nested_received dot_sent dot_received show ?thesis
    by (simp only: simp_thms)
qed

text \<open>
  Claim C8, as the code has it. Let a multi-file request name regular files of the served
  directory and names at whose path nothing exists, and let the client be able to open
  a destination for every file that it receives. The server sends the start message, then
  for every name in order the error message or the whole trace of the file, then the
  completion message. When that reaches the client, \<^verbatim>\<open>download_multiple_files\<close> returns
  success; the files it reports as downloaded are the requested names that the server has,
  in order, so their number is \<open>total_files\<close> less the number of missing names; and in the
  download directory each of them holds the served bytes, while no other file has changed.
\<close>

theorem download_multiple_with_missing_files:
  assumes cs: "0 < chunk_size srv"
    and cmd: "round_trips E (download_multiple_cmd names)"
    and start: "round_trips E (start_msg (length names) (JList (map JStr names)))"
    and codec: "list_all (round_trips E) (multi_msgs E srv names)"
    and kinds: "list_all (\<lambda>name. present srv name \<or> missing srv name) names"
    and dest: "list_all (writable c) (filter (present srv) names)"
    and fin: "round_trips E (multi_completion_msg (length names))"
    and delivered: "delivers (Frame (json_dumps E (start_msg (length names) (JList (map JStr names))))
                              # multi_items E srv names
                              @ [Frame (json_dumps E (multi_completion_msg (length names)))])
                             (inbox (socket c))"
    and buf: "0 < buffer_size c"
  shows "send_multiple_files E srv s (JList (map JStr names)) =
           Inr (s\<lparr>outbox := outbox s @ map item_bytes
             (Frame (json_dumps E (start_msg (length names) (JList (map JStr names))))
              # multi_items E srv names
              @ [Frame (json_dumps E (multi_completion_msg (length names)))])\<rparr>) \<and>
         fst (download_multiple_files E c names) \<and>
         downloaded (snd (download_multiple_files E c names)) =
           downloaded c @ filter (present srv) names \<and>
         length (filter (present srv) names) =
           length names - length (filter (missing srv) names) \<and>
         (\<forall>name. download_directory (snd (download_multiple_files E c names)) name =
            (if name \<in> set names \<and> present srv name then served_content srv name
             else download_directory c name))"
proof -
  from cmd have len: "length (json_dumps E (download_multiple_cmd names)) < 2 ^ 32"
    by (simp add: round_trips_def reads_as_def)
  from fin have rf: "reads_as E (json_dumps E (multi_completion_msg (length names)))
      (multi_completion_msg (length names))" by (simp add: round_trips_def)
  have ty: "py_item (multi_completion_msg (length names)) ''type'' =
      Inr (JStr ''multiple_transfer_complete'')" by (simp add: multi_completion_msg_def)
  from download_multiple_files_served[OF cs len start codec kinds dest rf ty delivered buf]
  obtain c' where r: "download_multiple_files E c names = (True, c')"
    and dir: "download_directory c' = store srv names (download_directory c)"
    and log: "downloaded c' = downloaded c @ filter (present srv) names"
    by auto
  note count = present_or_missing_count[OF kinds]
  from send_multiple_files_trace[OF cs start codec fin, of s] r dir log count
  show ?thesis by (simp add: store_lookup)
qed

lemma example_entries:
  "entry_msgs example_env example_server ''b.txt'' = [not_found ''b.txt'']"
  "entry_msgs example_env example_server ''a.txt'' = file_msgs 4 ''a.txt'' ''0123456789''"
  "present example_server ''a.txt''" "\<not> present example_server ''b.txt''"
  "missing example_server ''b.txt''" "\<not> missing example_server ''a.txt''"
  "served_content example_server ''a.txt'' = Some ''0123456789''"
  by (simp_all add: entry_msgs_def example_server_def present_def missing_def flat_directory_def
      served_content_def)

lemma example_multi_round_trips:
  "round_trips example_env (download_multiple_cmd [''b.txt'', ''a.txt''])"
  "round_trips example_env (start_msg (length [''b.txt'', ''a.txt''])
      (JList (map JStr [''b.txt'', ''a.txt''])))"
  "round_trips example_env (not_found ''b.txt'')"
  "round_trips example_env (multi_completion_msg (length [''b.txt'', ''a.txt'']))"
  "round_trips example_env (download_multiple_cmd [])"
  "round_trips example_env (start_msg (length ([]::string list)) (JList []))"
  "reads_as example_env (dumps (multi_completion_msg 5)) (multi_completion_msg 5)"
  by (simp_all add: round_trips_def reads_as_def example_env_def download_multiple_cmd_def
      start_msg_def not_found_def error_response_def quoted_def multi_completion_msg_def
      codec_eval utf8_valid_def cont_byte_def)

theorem download_multiple_with_missing_files_witness:
  "0 < chunk_size example_server \<and>
   round_trips example_env (download_multiple_cmd [''b.txt'', ''a.txt'']) \<and>
   round_trips example_env (start_msg (length [''b.txt'', ''a.txt''])
      (JList (map JStr [''b.txt'', ''a.txt'']))) \<and>
   list_all (round_trips example_env) (multi_msgs example_env example_server [''b.txt'', ''a.txt'']) \<and>
   missing example_server ''b.txt'' \<and> present example_server ''a.txt'' \<and>
   writable multi_client ''a.txt'' \<and>
   round_trips example_env (multi_completion_msg (length [''b.txt'', ''a.txt''])) \<and>
   0 < buffer_size multi_client \<and>
   send_multiple_files example_env example_server idle_socket (JList [JStr ''b.txt'', JStr ''a.txt'']) =
     Inr (idle_socket\<lparr>outbox := inbox (socket multi_client)\<rparr>) \<and>
   fst (download_multiple_files example_env multi_client [''b.txt'', ''a.txt'']) \<and>
   downloaded (snd (download_multiple_files example_env multi_client [''b.txt'', ''a.txt''])) = [''a.txt''] \<and>
   download_directory (snd (download_multiple_files example_env multi_client [''b.txt'', ''a.txt''])) ''a.txt'' =
     Some ''0123456789'' \<and>
   download_directory (snd (download_multiple_files example_env multi_client [''b.txt'', ''a.txt''])) ''b.txt'' =
     None"
proof -
  let ?names = "[''b.txt'', ''a.txt'']"
  have cs: "0 < chunk_size example_server" by (simp add: example_server_def)
  note cmd = example_multi_round_trips(1) and start = example_multi_round_trips(2)
    and fin = example_multi_round_trips(4)
  have codec: "list_all (round_trips example_env) (multi_msgs example_env example_server ?names)"
    using example_round_trips example_multi_round_trips(3)
    by (simp add: multi_msgs_def example_entries)
  have kinds: "list_all (\<lambda>name. present example_server name \<or> missing example_server name) ?names"
    by (simp add: example_entries)
  have w: "writable multi_client ''a.txt''"
    by (simp add: multi_client_def FileTransferClient_def plain_name_def)
  then have dest: "list_all (writable multi_client) (filter (present example_server) ?names)"
    by (simp add: example_entries)
  have inb: "inbox (socket multi_client) = map item_bytes
      (Frame (json_dumps example_env (start_msg (length ?names) (JList (map JStr ?names))))
       # multi_items example_env example_server ?names
       @ [Frame (json_dumps example_env (multi_completion_msg (length ?names)))]) @ []"
    by (simp add: multi_client_def FileTransferClient_def example_env_def start_msg_def
        multi_completion_msg_def)
  have d: "delivers
      (Frame (json_dumps example_env (start_msg (length ?names) (JList (map JStr ?names))))
       # multi_items example_env example_server ?names
       @ [Frame (json_dumps example_env (multi_completion_msg (length ?names)))])
      (inbox (socket multi_client))"
    unfolding inb by (rule delivers_own_segments)
  have b: "0 < buffer_size multi_client"
    and dir: "download_directory multi_client = Map.empty"
    and log: "downloaded multi_client = []"
    by (simp_all add: multi_client_def FileTransferClient_def)
  note t = download_multiple_with_missing_files[OF cs cmd start codec kinds dest fin d b, of idle_socket]
  from t have sent: "send_multiple_files example_env example_server idle_socket
        (JList [JStr ''b.txt'', JStr ''a.txt'']) =
     Inr (idle_socket\<lparr>outbox := inbox (socket multi_client)\<rparr>)"
    by (simp add: inb idle_socket_def)
  from t have ok: "fst (download_multiple_files example_env multi_client ?names)" by simp
  from t have names: "downloaded (snd (download_multiple_files example_env multi_client ?names)) = [''a.txt'']"
    by (simp add: log example_entries)
  from t have "\<forall>name. download_directory (snd (download_multiple_files example_env multi_client ?names)) name =
            (if name \<in> set ?names \<and> present example_server name
             then served_content example_server name
             else download_directory multi_client name)" by blast
  then have a: "download_directory (snd (download_multiple_files example_env multi_client ?names)) ''a.txt'' =
       Some ''0123456789''"
    and nb: "download_directory (snd (download_multiple_files example_env multi_client ?names)) ''b.txt'' = None"
    by (simp_all add: example_entries dir)
  from cs cmd start fin codec example_entries(3,5) w b sent ok names a nb
  show ?thesis by (simp only: simp_thms)
qed

text \<open>
  A multi-file transfer that announces no file, carries none and ends with a completion
  message for five files: \<^verbatim>\<open>download_multiple_files\<close> returns success.
\<close>

theorem completion_count_not_checked:
  \<open>dumps (start_msg 0 (JList [])) =
     ''{"type": "multiple_transfer_start", "total_files": 0, "filenames": []}'' \<and>
   dumps (multi_completion_msg 5) = ''{"type": "multiple_transfer_complete", "total_files": 5}'' \<and>
   inbox (socket miscounted_client) =
     [item_bytes (Frame (dumps (start_msg 0 (JList [])))),
      item_bytes (Frame (dumps (multi_completion_msg 5)))] \<and>
   fst (download_multiple_files example_env miscounted_client []) \<and>
   downloaded (snd (download_multiple_files example_env miscounted_client [])) = []\<close>
proof -
  have texts: \<open>dumps (start_msg 0 (JList [])) =
     ''{"type": "multiple_transfer_start", "total_files": 0, "filenames": []}''\<close>
    \<open>dumps (multi_completion_msg 5) = ''{"type": "multiple_transfer_complete", "total_files": 5}''\<close>
    by (simp_all add: start_msg_def multi_completion_msg_def codec_eval)
  have inb: "inbox (socket miscounted_client) =
     [item_bytes (Frame (dumps (start_msg 0 (JList [])))),
      item_bytes (Frame (dumps (multi_completion_msg 5)))]"
    by (simp add: miscounted_client_def FileTransferClient_def)
  have "fst (download_multiple_files example_env miscounted_client [])"
    and "downloaded (snd (download_multiple_files example_env miscounted_client [])) = []"
    by (simp_all add: miscounted_client_def multi_eval client_eval codec_eval)
  with texts inb show ?thesis by (simp only: simp_thms)
qed

text \<open>
  Claim C9, as the code has it. At the end of a multi-file download the client receives the
  completion message and compares its type: after a transfer that has run to its end the
  call returns success exactly when the type of the next message is
  \<^verbatim>\<open>multiple_transfer_complete\<close>, whatever that message says of \<^verbatim>\<open>total_files\<close>.
\<close>

theorem completion_type_decides:
  assumes cs: "0 < chunk_size srv"
    and cmd: "round_trips E (download_multiple_cmd req)"
    and start: "round_trips E (start_msg (length names) echo)"
    and codec: "list_all (round_trips E) (multi_msgs E srv names)"
    and kinds: "list_all (\<lambda>name. present srv name \<or> missing srv name) names"
    and dest: "list_all (writable c) (filter (present srv) names)"
    and final: "reads_as E ftext final" "py_item final ''type'' = Inr ty"
    and delivered: "delivers (Frame (json_dumps E (start_msg (length names) echo))
                              # multi_items E srv names @ [Frame ftext]) (inbox (socket c))"
    and buf: "0 < buffer_size c"
  shows "fst (download_multiple_files E c req) \<longleftrightarrow> ty = JStr ''multiple_transfer_complete''"
proof -
  from cmd have len: "length (json_dumps E (download_multiple_cmd req)) < 2 ^ 32"
    by (simp add: round_trips_def reads_as_def)
  from download_multiple_files_served[OF cs len start codec kinds dest final delivered buf]
  show ?thesis by auto
qed

theorem completion_type_decides_witness:
  "0 < chunk_size example_server \<and>
   round_trips example_env (download_multiple_cmd []) \<and>
   round_trips example_env (start_msg (length ([]::string list)) (JList [])) \<and>
   list_all (round_trips example_env) (multi_msgs example_env example_server []) \<and>
   reads_as example_env (dumps (multi_completion_msg 5)) (multi_completion_msg 5) \<and>
   py_item (multi_completion_msg 5) ''type'' = Inr (JStr ''multiple_transfer_complete'') \<and>
   py_item (multi_completion_msg 5) ''total_files'' = Inr (JInt 5) \<and>
   0 < buffer_size miscounted_client \<and>
   fst (download_multiple_files example_env miscounted_client [])"
proof -
  have cs: "0 < chunk_size example_server" by (simp add: example_server_def)
  note start = example_multi_round_trips(6)
  have codec: "list_all (round_trips example_env) (multi_msgs example_env example_server [])"
    by (simp add: multi_msgs_def)
  have kinds: "list_all (\<lambda>name. present example_server name \<or> missing example_server name) []"
    and dest: "list_all (writable miscounted_client) (filter (present example_server) [])"
    by simp_all
  have ty: "py_item (multi_completion_msg 5) ''type'' = Inr (JStr ''multiple_transfer_complete'')"
    and tf: "py_item (multi_completion_msg 5) ''total_files'' = Inr (JInt 5)"
    by (simp_all add: multi_completion_msg_def)
  have d: "delivers (Frame (json_dumps example_env (start_msg (length ([]::string list)) (JList [])))
                              # multi_items example_env example_server []
                              @ [Frame (dumps (multi_completion_msg 5))])
      (inbox (socket miscounted_client))"
    using delivers_own_segments[of "[Frame (dumps (start_msg 0 (JList []))),
        Frame (dumps (multi_completion_msg 5))]" "[]"]
    by (simp add: miscounted_client_def FileTransferClient_def multi_items_def example_env_def
        start_msg_def)
  have b: "0 < buffer_size miscounted_client"
    by (simp add: miscounted_client_def FileTransferClient_def)
  from completion_type_decides[OF cs example_multi_round_trips(5) start codec kinds dest
      example_multi_round_trips(7) ty d b]
  have "fst (download_multiple_files example_env miscounted_client [])" by simp
  with cs example_multi_round_trips(5,6,7) codec ty tf b show ?thesis by (simp only: simp_thms)
qed

end
